theory Spec2Isabelle
  imports Complex_Main "HOL-Library.Multiset" "HOL-Library.List_Lexorder" "HOL-Library.Char_ord"
    "HOL-Library.Product_Lexorder"
begin

section \<open>JavaScript array primitives used by the source\<close>

text \<open>
  \<^verbatim>\<open>Array.prototype.indexOf\<close> returns the position of the first occurrence, or \<open>-1\<close>.
  The source tests the result with \<^verbatim>\<open>=== -1\<close>, \<^verbatim>\<open>!== -1\<close> or the bit trick \<^verbatim>\<open>~index\<close>
  (which is falsy exactly at \<open>-1\<close>).
\<close>

primrec indexOf :: "'a list \<Rightarrow> 'a \<Rightarrow> int" where
  "indexOf [] x = - 1"
| "indexOf (y # ys) x =
     (if y = x then 0 else (let i = indexOf ys x in if i = - 1 then - 1 else i + 1))"

text \<open>
  \<^verbatim>\<open>arr.splice(index, 1)\<close>: removes one element at \<open>index\<close>. A negative index counts from
  the end (so \<^verbatim>\<open>splice(-1, 1)\<close> removes the last element), an index past the end removes
  nothing.
\<close>

definition splice1 :: "int \<Rightarrow> 'a list \<Rightarrow> 'a list" where
  "splice1 i xs =
     (let n = int (length xs);
          k = (if i < 0 then max (n + i) 0 else min i n)
      in take (nat k) xs @ drop (nat k + 1) xs)"

section \<open>EventDispatcher\<close>

text \<open>
  Listeners are JavaScript closures; the model identifies a listener by a number (its
  object identity). \<^verbatim>\<open>_listeners\<close> is a dictionary from event names to arrays of listeners.
  What a listener does when called is user code: \<open>dispatchEvent\<close> returns, next to the
  updated dispatcher, the list of calls it makes, in order.
\<close>

type_synonym listener = nat

record event_dispatcher =
  listeners :: "string \<rightharpoonup> listener list"
  fired :: nat
  handled :: nat

definition EventDispatcher_new :: event_dispatcher where
  "EventDispatcher_new = \<lparr>listeners = Map.empty, fired = 0, handled = 0\<rparr>"


definition hasEventListener :: "string \<Rightarrow> listener \<Rightarrow> event_dispatcher \<Rightarrow> bool" where
  "hasEventListener eventName l d =
     (case listeners d eventName of None \<Rightarrow> False | Some arr \<Rightarrow> indexOf arr l \<noteq> - 1)"


text \<open>
  \<open>dispatchEvent\<close> counts the event in \<open>stats.fired\<close> and calls every listener of a
  snapshot of the array with \<open>(entity, component)\<close>.
\<close>

definition dispatchEvent ::
  "string \<Rightarrow> 'e \<Rightarrow> 'c \<Rightarrow> event_dispatcher \<Rightarrow> event_dispatcher \<times> (listener \<times> 'e \<times> 'c) list" where
  "dispatchEvent eventName entity component d =
     (d\<lparr>fired := fired d + 1\<rparr>,
      case listeners d eventName of
        None \<Rightarrow> []
      | Some listenerArray \<Rightarrow> map (\<lambda>l. (l, entity, component)) listenerArray)"



section \<open>ObjectPool\<close>

text \<open>
  A pool holds its free instances in \<^verbatim>\<open>freeList\<close> and the number of instances it ever
  created in \<^verbatim>\<open>count\<close> (here \<open>pool_count\<close>). \<^verbatim>\<open>createElement\<close> is \<^verbatim>\<open>new T()\<close>: in the
  model a function \<open>mk\<close> that takes the allocation state \<open>'h\<close> and returns the new
  instance with the new state.

  \<^verbatim>\<open>aquire\<close> grows an empty pool by \<^verbatim>\<open>Math.round(this.count * 0.2) + 1\<close>.
  \<^verbatim>\<open>Math.round\<close> rounds to the nearest integer, a tie towards plus infinity, which is
  \<^term>\<open>round\<close> of HOL. The product is taken over the reals; the double product of the
  source rounds to the same integer, since a fifth of an integer is never within a tenth of
  a tie.
\<close>

record 'a object_pool =
  freeList :: "'a list"
  pool_count :: nat

definition ObjectPool_new :: "'a object_pool" where
  "ObjectPool_new = \<lparr>freeList = [], pool_count = 0\<rparr>"

definition growth :: "nat \<Rightarrow> nat" where
  "growth n = nat (round (real n * 0.2)) + 1"

primrec expand_loop :: "('h \<Rightarrow> 'a \<times> 'h) \<Rightarrow> nat \<Rightarrow> 'a list \<Rightarrow> 'h \<Rightarrow> 'a list \<times> 'h" where
  "expand_loop mk 0 fl h = (fl, h)"
| "expand_loop mk (Suc n) fl h = (case mk h of (x, h') \<Rightarrow> expand_loop mk n (fl @ [x]) h')"

definition expand ::
  "('h \<Rightarrow> 'a \<times> 'h) \<Rightarrow> nat \<Rightarrow> 'a object_pool \<Rightarrow> 'h \<Rightarrow> 'a object_pool \<times> 'h" where
  "expand mk n p h =
     (case expand_loop mk n (freeList p) h of
        (fl, h') \<Rightarrow> (p\<lparr>freeList := fl, pool_count := pool_count p + n\<rparr>, h'))"

text \<open>
  \<^verbatim>\<open>freeList.pop()\<close> returns the last element, or \<^verbatim>\<open>undefined\<close> (here \<open>None\<close>) on an
  empty array.
\<close>

definition aquire ::
  "('h \<Rightarrow> 'a \<times> 'h) \<Rightarrow> 'a object_pool \<Rightarrow> 'h \<Rightarrow> 'a option \<times> 'a object_pool \<times> 'h" where
  "aquire mk p h =
     (case (if length (freeList p) \<le> 0 then expand mk (growth (pool_count p)) p h else (p, h)) of
        (p1, h1) \<Rightarrow>
          (if freeList p1 = [] then None else Some (last (freeList p1)),
           p1\<lparr>freeList := butlast (freeList p1)\<rparr>,
           h1))"

definition release ::
  "('a \<Rightarrow> 'h \<Rightarrow> 'h) \<Rightarrow> 'a \<Rightarrow> 'a object_pool \<Rightarrow> 'h \<Rightarrow> 'a object_pool \<times> 'h" where
  "release reset item p h = (p\<lparr>freeList := freeList p @ [item]\<rparr>, reset item h)"

definition totalSize :: "'a object_pool \<Rightarrow> nat" where
  "totalSize p = pool_count p"

definition totalFree :: "'a object_pool \<Rightarrow> nat" where
  "totalFree p = length (freeList p)"

definition totalUsed :: "'a object_pool \<Rightarrow> int" where
  "totalUsed p = int (pool_count p) - int (length (freeList p))"

text \<open>The growth rule as the specification words it: \<open>ceil(count * 0.2) + 1\<close>.\<close>

definition spec_growth :: "nat \<Rightarrow> nat" where
  "spec_growth n = nat \<lceil>real n * 0.2\<rceil> + 1"

text \<open>An allocator for the examples: instances are numbered in the order of creation.\<close>

definition mk_counter :: "nat \<Rightarrow> nat \<times> nat" where
  "mk_counter h = (h, Suc h)"

section \<open>Component types, names and query keys\<close>

text \<open>
  A component type is a JavaScript class: an identity (\<open>cls\<close>), its \<^verbatim>\<open>name\<close>, and whether
  its prototype has a \<^verbatim>\<open>reset\<close> method (which decides pooling). Arrays of classes are
  searched by identity, dictionaries are keyed by name.
\<close>

datatype ctype = CType (cls: nat) (cname: string) (has_reset: bool)

definition getName :: "ctype \<Rightarrow> string" where
  "getName Component = cname Component"

text \<open>
  \<^verbatim>\<open>toLowerCase\<close> on the ASCII letters; names are taken to be ASCII strings.
\<close>

definition lower_char :: "char \<Rightarrow> char" where
  "lower_char c =
     (if CHR ''A'' \<le> c \<and> c \<le> CHR ''Z'' then char_of (of_char c + (32::nat)) else c)"

definition toLowerCase :: "string \<Rightarrow> string" where
  "toLowerCase s = map lower_char s"

definition componentPropertyName :: "ctype \<Rightarrow> string" where
  "componentPropertyName Component =
     (case getName Component of [] \<Rightarrow> [] | c # cs \<Rightarrow> lower_char c # cs)"

text \<open>
  An element of a query specification is a class (\<open>Plain\<close>) or an object with an
  \<^verbatim>\<open>operator\<close> and a \<^verbatim>\<open>Component\<close> (\<open>Obj\<close>); the exported \<^verbatim>\<open>Not\<close> builds the object with
  operator \<^verbatim>\<open>"not"\<close>.
\<close>

datatype qterm = Plain ctype | Obj string ctype


fun term_name :: "qterm \<Rightarrow> string" where
  "term_name (Obj operator Component) =
     (if operator = ''not'' then ''!'' else operator) @ getName Component"
| "term_name (Plain T) = getName T"

fun join :: "string \<Rightarrow> string list \<Rightarrow> string" where
  "join sep [] = []"
| "join sep [x] = x"
| "join sep (x # y # ys) = x @ sep @ join sep (y # ys)"

text \<open>
  \<^verbatim>\<open>names.sort()\<close> without a comparator orders strings by their code units, which is the
  lexicographic order on \<open>char list\<close>.
\<close>

definition queryKey :: "qterm list \<Rightarrow> string" where
  "queryKey Components = join ''-'' (sort (map toLowerCase (map term_name Components)))"



section \<open>ComponentManager\<close>

text \<open>
  \<^verbatim>\<open>numComponents\<close> holds JavaScript numbers: \<^verbatim>\<open>undefined--\<close> stores \<^verbatim>\<open>NaN\<close>.
  A pool is an \<^verbatim>\<open>ObjectPool\<close> or a \<^verbatim>\<open>DummyObjectPool\<close> (fields \<^verbatim>\<open>count\<close> and \<^verbatim>\<open>used\<close>).
  Component instances are identified by numbers handed out by the counter \<open>instances\<close>,
  which stands for \<^verbatim>\<open>new T()\<close>; what an instance holds is user data and not modelled.
\<close>

datatype jsnum = Num int | NaN

datatype pool = ObjectPool "nat object_pool" | DummyObjectPool nat int

datatype error = Error string | TypeError

record component_manager =
  Components :: "string \<rightharpoonup> ctype"
  componentPool :: "string \<rightharpoonup> pool"
  numComponents :: "string \<rightharpoonup> jsnum"
  instances :: nat

definition ComponentManager_new :: component_manager where
  "ComponentManager_new =
     \<lparr>Components = Map.empty, componentPool = Map.empty, numComponents = Map.empty,
      instances = 0\<rparr>"

definition registerComponent :: "ctype \<Rightarrow> component_manager \<Rightarrow> component_manager" where
  "registerComponent Component cm =
     cm\<lparr>Components := (Components cm)(cname Component \<mapsto> Component),
        numComponents := (numComponents cm)(cname Component \<mapsto> Num 0)\<rparr>"

text \<open>\<^verbatim>\<open>!x\<close> holds for \<^verbatim>\<open>undefined\<close>, \<open>0\<close> and \<^verbatim>\<open>NaN\<close>.\<close>

definition componentAddedToEntity :: "ctype \<Rightarrow> component_manager \<Rightarrow> component_manager" where
  "componentAddedToEntity Component cm =
     cm\<lparr>numComponents := (numComponents cm)(cname Component \<mapsto>
        (case numComponents cm (cname Component) of
           Some (Num n) \<Rightarrow> if n = 0 then Num 1 else Num (n + 1)
         | Some NaN \<Rightarrow> Num 1
         | None \<Rightarrow> Num 1))\<rparr>"

definition componentRemovedFromEntity :: "ctype \<Rightarrow> component_manager \<Rightarrow> component_manager" where
  "componentRemovedFromEntity Component cm =
     cm\<lparr>numComponents := (numComponents cm)(cname Component \<mapsto>
        (case numComponents cm (cname Component) of
           Some (Num n) \<Rightarrow> Num (n - 1)
         | Some NaN \<Rightarrow> NaN
         | None \<Rightarrow> NaN))\<rparr>"

text \<open>
  \<open>getComponentsPool\<close> creates the pool on first use and returns it; the model returns
  the pool together with the key it is stored under.
\<close>

definition getComponentsPool ::
  "ctype \<Rightarrow> component_manager \<Rightarrow> string \<times> pool \<times> component_manager" where
  "getComponentsPool Component cm =
     (let componentName = componentPropertyName Component in
      case componentPool cm componentName of
        None \<Rightarrow>
          (let p = (if has_reset Component then ObjectPool ObjectPool_new else DummyObjectPool 0 0)
           in (componentName, p, cm\<lparr>componentPool := (componentPool cm)(componentName \<mapsto> p)\<rparr>))
      | Some p \<Rightarrow> (componentName, p, cm))"

fun pool_aquire :: "pool \<Rightarrow> nat \<Rightarrow> nat option \<times> pool \<times> nat" where
  "pool_aquire (ObjectPool p) h =
     (case aquire mk_counter p h of (item, p', h') \<Rightarrow> (item, ObjectPool p', h'))"
| "pool_aquire (DummyObjectPool cnt used) h =
     (Some h, DummyObjectPool (cnt + 1) (used + 1), Suc h)"

text \<open>
  \<^verbatim>\<open>release(item)\<close> calls \<^verbatim>\<open>item.reset()\<close> on an \<^verbatim>\<open>ObjectPool\<close>, a TypeError when the
  item is \<^verbatim>\<open>undefined\<close>; the dummy pool ignores its argument.
\<close>

fun pool_release :: "nat option \<Rightarrow> pool \<Rightarrow> error + pool" where
  "pool_release None (ObjectPool p) = Inl TypeError"
| "pool_release (Some item) (ObjectPool p) =
     Inr (ObjectPool (fst (release (\<lambda>i h. h) item p ())))"
| "pool_release item (DummyObjectPool cnt used) = Inr (DummyObjectPool cnt (used - 1))"

fun pool_totalUsed :: "pool \<Rightarrow> int" where
  "pool_totalUsed (ObjectPool p) = totalUsed p"
| "pool_totalUsed (DummyObjectPool cnt used) = used"

text \<open>\<^verbatim>\<open>this._componentPool[propName].release(component)\<close>: a TypeError when no pool is stored.\<close>

definition release_component ::
  "string \<Rightarrow> nat option \<Rightarrow> component_manager \<Rightarrow> error + component_manager" where
  "release_component propName component cm =
     (case componentPool cm propName of
        None \<Rightarrow> Inl TypeError
      | Some p \<Rightarrow>
          (case pool_release component p of
             Inl err \<Rightarrow> Inl err
           | Inr p' \<Rightarrow> Inr (cm\<lparr>componentPool := (componentPool cm)(propName \<mapsto> p')\<rparr>)))"

text \<open>Example states used below: a pool after its first acquire, and a manager where
  type \<open>A\<close> is registered and attached once.\<close>

definition pool_after_first :: "nat object_pool" where
  "pool_after_first = fst (snd (aquire mk_counter ObjectPool_new 0))"

definition cm_example :: component_manager where
  "cm_example =
     componentAddedToEntity (CType 0 ''A'' True)
       (registerComponent (CType 0 ''A'' True) ComponentManager_new)"

section \<open>Entities and queries\<close>

text \<open>
  An \<^verbatim>\<open>Entity\<close> object: \<open>id_ent\<close> is its \<^verbatim>\<open>id\<close>, \<open>e_world\<close> tells whether \<^verbatim>\<open>_world\<close> is
  set. \<^verbatim>\<open>_components\<close> and \<^verbatim>\<open>_componentsToRemove\<close> are dictionaries from the component's
  name to the instance; \<^verbatim>\<open>queries\<close> holds the query objects the entity is in.

  A \<^verbatim>\<open>Query\<close> object is created by \<^verbatim>\<open>QueryManager.getQuery\<close> only, which stores it under
  its key for ever; so inside one manager the key stands for the identity of the query
  object, and \<^verbatim>\<open>entity.queries\<close> is a list of keys.
\<close>

record entity =
  id_ent :: nat
  e_world :: bool
  ComponentTypes :: "ctype list"
  components :: "string \<rightharpoonup> nat"
  componentsToRemove :: "string \<rightharpoonup> nat"
  queries :: "string list"
  ComponentTypesToRemove :: "ctype list"

record query =
  q_Components :: "ctype list"
  q_NotComponents :: "ctype list"
  q_entities :: "nat list"
  eventDispatcher :: event_dispatcher
  reactive :: bool
  q_key :: string

definition ENTITY_ADDED :: string where "ENTITY_ADDED = ''Query#ENTITY_ADDED''"
definition ENTITY_REMOVED :: string where "ENTITY_REMOVED = ''Query#ENTITY_REMOVED''"
definition COMPONENT_CHANGED :: string where "COMPONENT_CHANGED = ''Query#COMPONENT_CHANGED''"



definition hasComponent :: "entity \<Rightarrow> ctype \<Rightarrow> bool" where
  "hasComponent ent Component = (indexOf (ComponentTypes ent) Component \<noteq> - 1)"

definition hasRemovedComponent :: "entity \<Rightarrow> ctype \<Rightarrow> bool" where
  "hasRemovedComponent ent Component = (indexOf (ComponentTypesToRemove ent) Component \<noteq> - 1)"

primrec hasAllComponents :: "entity \<Rightarrow> ctype list \<Rightarrow> bool" where
  "hasAllComponents ent [] = True"
| "hasAllComponents ent (C # Cs) =
     (if \<not> hasComponent ent C then False else hasAllComponents ent Cs)"

primrec hasAnyComponents :: "entity \<Rightarrow> ctype list \<Rightarrow> bool" where
  "hasAnyComponents ent [] = False"
| "hasAnyComponents ent (C # Cs) =
     (if hasComponent ent C then True else hasAnyComponents ent Cs)"

definition match :: "query \<Rightarrow> entity \<Rightarrow> bool" where
  "match q ent \<longleftrightarrow>
     hasAllComponents ent (q_Components q) \<and> \<not> hasAnyComponents ent (q_NotComponents q)"

text \<open>
  \<^verbatim>\<open>Query.addEntity\<close> and \<^verbatim>\<open>Query.removeEntity\<close> change the query and the entity; \<open>e\<close> is
  the entity's identity and \<open>k\<close> the query's. The listeners that \<open>dispatchEvent\<close> calls
  are user code, whose effect on the world is outside the model.
\<close>

definition Query_addEntity :: "nat \<Rightarrow> string \<Rightarrow> query \<Rightarrow> entity \<Rightarrow> query \<times> entity" where
  "Query_addEntity e k q ent =
     (q\<lparr>q_entities := q_entities q @ [e],
        eventDispatcher := fst (dispatchEvent ENTITY_ADDED e (None :: nat option) (eventDispatcher q))\<rparr>,
      ent\<lparr>queries := queries ent @ [k]\<rparr>)"

definition Query_removeEntity :: "nat \<Rightarrow> string \<Rightarrow> query \<Rightarrow> entity \<Rightarrow> query \<times> entity" where
  "Query_removeEntity e k q ent =
     (let index = indexOf (q_entities q) e in
      if index \<noteq> - 1
      then (q\<lparr>q_entities := splice1 index (q_entities q),
              eventDispatcher :=
                fst (dispatchEvent ENTITY_REMOVED e (None :: nat option) (eventDispatcher q))\<rparr>,
            ent\<lparr>queries := splice1 (indexOf (queries ent) k) (queries ent)\<rparr>)
      else (q, ent))"

section \<open>QueryManager: the loops over the queries\<close>

text \<open>
  Each of the three callbacks runs \<^verbatim>\<open>for (var queryName in this._queries)\<close>, in insertion
  order, and its body changes the query at hand and the one entity passed in.
  \<open>query_loop\<close> is that loop; the bodies follow.
\<close>

fun query_loop ::
  "(string \<Rightarrow> query \<Rightarrow> entity \<Rightarrow> query \<times> entity) \<Rightarrow> (string \<times> query) list \<Rightarrow> entity
     \<Rightarrow> (string \<times> query) list \<times> entity" where
  "query_loop body [] ent = ([], ent)"
| "query_loop body ((k, q) # qs) ent =
     (case body k q ent of
        (q', ent') \<Rightarrow>
          (case query_loop body qs ent' of (qs', ent'') \<Rightarrow> ((k, q') # qs', ent'')))"

definition onEntityRemoved_body :: "nat \<Rightarrow> string \<Rightarrow> query \<Rightarrow> entity \<Rightarrow> query \<times> entity" where
  "onEntityRemoved_body e k q ent =
     (if indexOf (queries ent) k \<noteq> - 1 then Query_removeEntity e k q ent else (q, ent))"

definition onEntityComponentAdded_body ::
  "nat \<Rightarrow> ctype \<Rightarrow> string \<Rightarrow> query \<Rightarrow> entity \<Rightarrow> query \<times> entity" where
  "onEntityComponentAdded_body e Component k q ent =
     (if indexOf (q_NotComponents q) Component \<noteq> - 1 \<and> indexOf (q_entities q) e \<noteq> - 1
      then Query_removeEntity e k q ent
      else if indexOf (q_Components q) Component = - 1 \<or> \<not> match q ent
              \<or> indexOf (q_entities q) e \<noteq> - 1
      then (q, ent)
      else Query_addEntity e k q ent)"

definition onEntityComponentRemoved_body ::
  "nat \<Rightarrow> ctype \<Rightarrow> string \<Rightarrow> query \<Rightarrow> entity \<Rightarrow> query \<times> entity" where
  "onEntityComponentRemoved_body e Component k q ent =
     (if indexOf (q_NotComponents q) Component \<noteq> - 1 \<and> indexOf (q_entities q) e = - 1
         \<and> match q ent
      then Query_addEntity e k q ent
      else if indexOf (q_Components q) Component \<noteq> - 1 \<and> indexOf (q_entities q) e \<noteq> - 1
              \<and> \<not> match q ent
      then Query_removeEntity e k q ent
      else (q, ent))"

section \<open>EntityManager\<close>

text \<open>
  The state of an \<^verbatim>\<open>EntityManager\<close> with all it reaches: the component manager, the
  global counter \<^verbatim>\<open>nextId\<close>, the \<^verbatim>\<open>Entity\<close> objects (\<open>heap\<close>, by identity; \<open>allocated\<close>
  counts the objects constructed), the live entities \<^verbatim>\<open>_entities\<close>, the queries of its
  \<^verbatim>\<open>QueryManager\<close> in insertion order, its dispatcher, the entity pool and the two lists
  of deferred removals.
\<close>

record manager =
  componentsManager :: component_manager
  nextId :: nat
  heap :: "nat \<Rightarrow> entity"
  allocated :: nat
  entities :: "nat list"
  queries_map :: "(string \<times> query) list"
  em_eventDispatcher :: event_dispatcher
  entityPool :: "nat object_pool"
  entitiesWithComponentsToRemove :: "nat list"
  entitiesToRemove :: "nat list"

definition ENTITY_CREATED :: string where "ENTITY_CREATED = ''EntityManager#ENTITY_CREATE''"
definition EM_ENTITY_REMOVED :: string where "EM_ENTITY_REMOVED = ''EntityManager#ENTITY_REMOVED''"
definition COMPONENT_ADDED :: string where "COMPONENT_ADDED = ''EntityManager#COMPONENT_ADDED''"
definition COMPONENT_REMOVE :: string where "COMPONENT_REMOVE = ''EntityManager#COMPONENT_REMOVE''"

definition empty_entity :: entity where
  "empty_entity =
     \<lparr>id_ent = 0, e_world = False, ComponentTypes = [], components = Map.empty,
      componentsToRemove = Map.empty, queries = [], ComponentTypesToRemove = []\<rparr>"

definition EntityManager_new :: manager where
  "EntityManager_new =
     \<lparr>componentsManager = ComponentManager_new, nextId = 0, heap = (\<lambda>r. empty_entity),
      allocated = 0, entities = [], queries_map = [], em_eventDispatcher = EventDispatcher_new,
      entityPool = ObjectPool_new, entitiesWithComponentsToRemove = [], entitiesToRemove = []\<rparr>"

text \<open>\<^verbatim>\<open>new Entity()\<close>: a new object, whose \<^verbatim>\<open>id\<close> is \<^verbatim>\<open>nextId++\<close>.\<close>

definition Entity_new :: "manager \<Rightarrow> nat \<times> manager" where
  "Entity_new m =
     (allocated m,
      m\<lparr>heap := (heap m)(allocated m := empty_entity\<lparr>id_ent := nextId m\<rparr>),
        nextId := nextId m + 1,
        allocated := allocated m + 1\<rparr>)"

definition Entity_reset :: "nat \<Rightarrow> manager \<Rightarrow> manager" where
  "Entity_reset e m =
     m\<lparr>heap := (heap m)(e := (heap m e)\<lparr>id_ent := nextId m, e_world := False,
                                       ComponentTypes := [], queries := [],
                                       components := Map.empty\<rparr>),
       nextId := nextId m + 1\<rparr>"

definition em_dispatch :: "string \<Rightarrow> nat \<Rightarrow> ctype option \<Rightarrow> manager \<Rightarrow> manager" where
  "em_dispatch eventName e Component m =
     m\<lparr>em_eventDispatcher := fst (dispatchEvent eventName e Component (em_eventDispatcher m))\<rparr>"

definition createEntity :: "manager \<Rightarrow> error + nat \<times> manager" where
  "createEntity m =
     (case aquire Entity_new (entityPool m) m of
        (None, p, m1) \<Rightarrow> Inl TypeError
      | (Some e, p, m1) \<Rightarrow>
          Inr (e, em_dispatch ENTITY_CREATED e None
                    (m1\<lparr>entityPool := p,
                        heap := (heap m1)(e := (heap m1 e)\<lparr>e_world := True\<rparr>),
                        entities := entities m1 @ [e]\<rparr>)))"

text \<open>
  A callback of the \<^verbatim>\<open>QueryManager\<close>: the loop, run on the queries of the manager and the
  entity object \<open>e\<close>, both updated in place.
\<close>

definition callback_loop ::
  "(string \<Rightarrow> query \<Rightarrow> entity \<Rightarrow> query \<times> entity) \<Rightarrow> nat \<Rightarrow> manager \<Rightarrow> manager" where
  "callback_loop body e m =
     (case query_loop body (queries_map m) (heap m e) of
        (qs, ent) \<Rightarrow> m\<lparr>queries_map := qs, heap := (heap m)(e := ent)\<rparr>)"

definition onEntityRemoved :: "nat \<Rightarrow> manager \<Rightarrow> manager" where
  "onEntityRemoved e m = callback_loop (onEntityRemoved_body e) e m"

definition onEntityComponentAdded :: "nat \<Rightarrow> ctype \<Rightarrow> manager \<Rightarrow> manager" where
  "onEntityComponentAdded e Component m =
     callback_loop (onEntityComponentAdded_body e Component) e m"

definition onEntityComponentRemoved :: "nat \<Rightarrow> ctype \<Rightarrow> manager \<Rightarrow> manager" where
  "onEntityComponentRemoved e Component m =
     callback_loop (onEntityComponentRemoved_body e Component) e m"

text \<open>
  \<open>entityAddComponent\<close>. The optional \<^verbatim>\<open>values\<close> only fill the new instance, which holds
  user data, and are left out.
\<close>

definition entityAddComponent :: "nat \<Rightarrow> ctype \<Rightarrow> manager \<Rightarrow> manager" where
  "entityAddComponent e Component m =
     (if indexOf (ComponentTypes (heap m e)) Component \<noteq> - 1 then m
      else
        (let ent1 = (heap m e)\<lparr>ComponentTypes := ComponentTypes (heap m e) @ [Component]\<rparr>;
             (pk, pl, cm1) = getComponentsPool Component (componentsManager m);
             (component, pl', h') = pool_aquire pl (instances cm1);
             cm2 = cm1\<lparr>componentPool := (componentPool cm1)(pk \<mapsto> pl'), instances := h'\<rparr>;
             ent2 = ent1\<lparr>components := (components ent1)(cname Component := component)\<rparr>;
             m1 = onEntityComponentAdded e Component
                    (m\<lparr>heap := (heap m)(e := ent2), componentsManager := cm2\<rparr>);
             m2 = m1\<lparr>componentsManager := componentAddedToEntity Component (componentsManager m1)\<rparr>
         in em_dispatch COMPONENT_ADDED e (Some Component) m2))"

definition entityRemoveComponentSync :: "nat \<Rightarrow> ctype \<Rightarrow> int \<Rightarrow> manager \<Rightarrow> error + manager" where
  "entityRemoveComponentSync e Component index m =
     (let ent = heap m e;
          propName = componentPropertyName Component;
          componentName = getName Component;
          component = components ent componentName;
          ent1 = ent\<lparr>ComponentTypes := splice1 index (ComponentTypes ent),
                     components := (components ent)(componentName := None)\<rparr>
      in case release_component propName component (componentsManager m) of
           Inl err \<Rightarrow> Inl err
         | Inr cm \<Rightarrow>
             Inr (m\<lparr>heap := (heap m)(e := ent1),
                    componentsManager := componentRemovedFromEntity Component cm\<rparr>))"

definition entityRemoveComponent :: "nat \<Rightarrow> ctype \<Rightarrow> bool \<Rightarrow> manager \<Rightarrow> error + manager" where
  "entityRemoveComponent e Component forceRemove m =
     (let index = indexOf (ComponentTypes (heap m e)) Component in
      if index = - 1 then Inr m
      else
        (let m0 = em_dispatch COMPONENT_REMOVE e (Some Component) m in
         case (if forceRemove then entityRemoveComponentSync e Component index m0
               else
                 (let ent = heap m0 e;
                      componentName = getName Component
                  in Inr (m0\<lparr>entitiesWithComponentsToRemove :=
                               (if length (ComponentTypesToRemove ent) = 0
                                then entitiesWithComponentsToRemove m0 @ [e]
                                else entitiesWithComponentsToRemove m0),
                             heap := (heap m0)(e := ent
                               \<lparr>ComponentTypes := splice1 index (ComponentTypes ent),
                                ComponentTypesToRemove := ComponentTypesToRemove ent @ [Component],
                                componentsToRemove :=
                                  (componentsToRemove ent)(componentName := components ent componentName),
                                components := (components ent)(componentName := None)\<rparr>)\<rparr>))) of
           Inl err \<Rightarrow> Inl err
         | Inr m1 \<Rightarrow> Inr (onEntityComponentRemoved e Component m1)))"

text \<open>
  \<open>entityRemoveAllComponents\<close>: \<open>j\<close> runs from \<open>length - 1\<close> down to 0 over the entity's
  own array, which every removal shortens; \<^verbatim>\<open>Components[j]\<close> past the end is \<^verbatim>\<open>undefined\<close>,
  which no entity has.
\<close>

fun entityRemoveAll_loop :: "nat \<Rightarrow> bool \<Rightarrow> nat \<Rightarrow> manager \<Rightarrow> error + manager" where
  "entityRemoveAll_loop e forceRemove 0 m = Inr m"
| "entityRemoveAll_loop e forceRemove (Suc j) m =
     (if j < length (ComponentTypes (heap m e))
      then (case entityRemoveComponent e (ComponentTypes (heap m e) ! j) forceRemove m of
              Inl err \<Rightarrow> Inl err
            | Inr m' \<Rightarrow> entityRemoveAll_loop e forceRemove j m')
      else entityRemoveAll_loop e forceRemove j m)"

definition entityRemoveAllComponents :: "nat \<Rightarrow> bool \<Rightarrow> manager \<Rightarrow> error + manager" where
  "entityRemoveAllComponents e forceRemove m =
     entityRemoveAll_loop e forceRemove (length (ComponentTypes (heap m e))) m"

definition removeEntitySync :: "nat \<Rightarrow> int \<Rightarrow> bool \<Rightarrow> manager \<Rightarrow> error + manager" where
  "removeEntitySync e index removeAllComponents m =
     (let m1 = m\<lparr>entities := splice1 index (entities m)\<rparr> in
      case (if removeAllComponents then entityRemoveAllComponents e True m1 else Inr m1) of
        Inl err \<Rightarrow> Inl err
      | Inr m2 \<Rightarrow>
          (let m3 = m2\<lparr>heap := (heap m2)(e := (heap m2 e)\<lparr>e_world := False\<rparr>)\<rparr> in
           case release Entity_reset e (entityPool m3) m3 of
             (p, m4) \<Rightarrow> Inr (m4\<lparr>entityPool := p\<rparr>)))"

definition removeEntity :: "nat \<Rightarrow> bool \<Rightarrow> manager \<Rightarrow> error + manager" where
  "removeEntity e forceRemove m =
     (let index = indexOf (entities m) e in
      if index = - 1 then Inl (Error ''Tried to remove entity not in list'')
      else
        (let m1 = onEntityRemoved e (em_dispatch EM_ENTITY_REMOVED e None m) in
         if forceRemove then removeEntitySync e index True m1
         else
           (case entityRemoveAllComponents e False m1 of
              Inl err \<Rightarrow> Inl err
            | Inr m2 \<Rightarrow> Inr (m2\<lparr>entitiesToRemove := entitiesToRemove m2 @ [e]\<rparr>))))"

text \<open>
  \<open>processDeferredRemoval\<close>: first the entities staged for removal, then, for every
  entity with staged components, the \<^verbatim>\<open>while\<close> loop that pops the staged types and
  releases the staged instances.
\<close>

fun pdr_entities :: "nat list \<Rightarrow> manager \<Rightarrow> error + manager" where
  "pdr_entities [] m = Inr m"
| "pdr_entities (e # es) m =
     (case removeEntitySync e (indexOf (entities m) e) False m of
        Inl err \<Rightarrow> Inl err
      | Inr m' \<Rightarrow> pdr_entities es m')"

definition pop_component :: "nat \<Rightarrow> manager \<Rightarrow> error + manager" where
  "pop_component e m =
     (let ent = heap m e;
          Component = last (ComponentTypesToRemove ent);
          propName = componentPropertyName Component;
          componentName = getName Component;
          component = componentsToRemove ent componentName;
          m1 = m\<lparr>heap := (heap m)(e := ent
                  \<lparr>ComponentTypesToRemove := butlast (ComponentTypesToRemove ent),
                   componentsToRemove := (componentsToRemove ent)(componentName := None)\<rparr>)\<rparr>
      in case release_component propName component (componentsManager m1) of
           Inl err \<Rightarrow> Inl err
         | Inr cm \<Rightarrow> Inr (m1\<lparr>componentsManager := cm\<rparr>))"

lemma pop_component_length:
  "pop_component e m = Inr m' \<Longrightarrow>
     length (ComponentTypesToRemove (heap m' e)) = length (ComponentTypesToRemove (heap m e)) - 1"
  by (auto simp: pop_component_def Let_def split: sum.splits)

function drain_components :: "nat \<Rightarrow> manager \<Rightarrow> error + manager" where
  "drain_components e m =
     (if length (ComponentTypesToRemove (heap m e)) > 0
      then (case pop_component e m of
              Inl err \<Rightarrow> Inl err
            | Inr m' \<Rightarrow> drain_components e m')
      else Inr m)"
  by pat_completeness auto
termination
  by (relation "measure (\<lambda>(e, m). length (ComponentTypesToRemove (heap m e)))")
     (auto dest: pop_component_length)

declare drain_components.simps [simp del]

fun pdr_components :: "nat list \<Rightarrow> manager \<Rightarrow> error + manager" where
  "pdr_components [] m = Inr m"
| "pdr_components (e # es) m =
     (case drain_components e m of
        Inl err \<Rightarrow> Inl err
      | Inr m' \<Rightarrow> pdr_components es m')"

definition processDeferredRemoval :: "manager \<Rightarrow> error + manager" where
  "processDeferredRemoval m =
     (case pdr_entities (entitiesToRemove m) m of
        Inl err \<Rightarrow> Inl err
      | Inr m1 \<Rightarrow>
          (let m2 = m1\<lparr>entitiesToRemove := []\<rparr> in
           case pdr_components (entitiesWithComponentsToRemove m2) m2 of
             Inl err \<Rightarrow> Inl err
           | Inr m3 \<Rightarrow> Inr (m3\<lparr>entitiesWithComponentsToRemove := []\<rparr>)))"

section \<open>Query construction and lookup\<close>

text \<open>
  The \<^verbatim>\<open>Query\<close> constructor sorts the specification into \<^verbatim>\<open>Components\<close> and
  \<^verbatim>\<open>NotComponents\<close>, fails without a positive component, and fills the query with the
  live entities that match, without dispatching events.
\<close>

fun positive_of :: "qterm list \<Rightarrow> ctype list" where
  "positive_of [] = []"
| "positive_of (Obj operator Component # ts) = positive_of ts"
| "positive_of (Plain T # ts) = T # positive_of ts"

fun negated_of :: "qterm list \<Rightarrow> ctype list" where
  "negated_of [] = []"
| "negated_of (Obj operator Component # ts) = Component # negated_of ts"
| "negated_of (Plain T # ts) = negated_of ts"

fun Query_fill :: "string \<Rightarrow> nat list \<Rightarrow> query \<Rightarrow> (nat \<Rightarrow> entity) \<Rightarrow> query \<times> (nat \<Rightarrow> entity)" where
  "Query_fill k [] q h = (q, h)"
| "Query_fill k (e # es) q h =
     (if match q (h e)
      then Query_fill k es (q\<lparr>q_entities := q_entities q @ [e]\<rparr>)
             (h(e := (h e)\<lparr>queries := queries (h e) @ [k]\<rparr>))
      else Query_fill k es q h)"

definition Query_new :: "qterm list \<Rightarrow> manager \<Rightarrow> error + query \<times> (nat \<Rightarrow> entity)" where
  "Query_new Comps m =
     (if length (positive_of Comps) = 0
      then Inl (Error ''Can't create a query without components'')
      else Inr (Query_fill (queryKey Comps) (entities m)
                  \<lparr>q_Components = positive_of Comps,
                   q_NotComponents = negated_of Comps,
                   q_entities = [],
                   eventDispatcher = EventDispatcher_new,
                   reactive = False,
                   q_key = queryKey Comps\<rparr>
                  (heap m)))"

text \<open>\<open>getQuery\<close> returns the query object, that is its key, and the new state.\<close>

definition getQuery :: "qterm list \<Rightarrow> manager \<Rightarrow> error + string \<times> manager" where
  "getQuery Comps m =
     (let key = queryKey Comps in
      case map_of (queries_map m) key of
        Some query \<Rightarrow> Inr (key, m)
      | None \<Rightarrow>
          (case Query_new Comps m of
             Inl err \<Rightarrow> Inl err
           | Inr (query, h) \<Rightarrow>
               Inr (key, m\<lparr>queries_map := queries_map m @ [(key, query)], heap := h\<rparr>)))"

definition queryComps :: "qterm list \<Rightarrow> manager \<Rightarrow> error + string \<times> manager" where
  "queryComps Comps m = getQuery Comps m"

section \<open>Entity.getMutableComponent\<close>




section \<open>Systems and the World\<close>

text \<open>
  A \<^verbatim>\<open>System\<close> instance: its identity \<open>sys_id\<close> (instances are numbered in the order of
  construction), \<^verbatim>\<open>priority\<close>, \<^verbatim>\<open>order\<close>, the flags tested by \<^verbatim>\<open>SystemManager.execute\<close>
  and the keys of its mandatory queries. The body of a system's \<^verbatim>\<open>execute\<close> is user code:
  the model takes it as a function \<open>run\<close> from the system's identity to a change of the
  entity manager's state. Event buffers and \<^verbatim>\<open>executeTime\<close> are left out.

  The constructor sets \<^verbatim>\<open>priority\<close> to \<^verbatim>\<open>attributes.priority\<close> when that is given and
  truthy, else to 0.
\<close>

record system =
  sys_id :: nat
  priority :: int
  order :: nat
  sys_enabled :: bool
  initialized :: bool
  has_execute :: bool
  mandatoryQueries :: "string list"

record system_manager =
  systems :: "system list"
  constructed :: nat

definition SystemManager_new :: system_manager where
  "SystemManager_new = \<lparr>systems = [], constructed = 0\<rparr>"

definition System_new :: "nat \<Rightarrow> bool \<Rightarrow> string list \<Rightarrow> int option \<Rightarrow> system" where
  "System_new sid ex mandatory attributes =
     \<lparr>sys_id = sid,
      priority = (case attributes of None \<Rightarrow> 0 | Some p \<Rightarrow> if p \<noteq> 0 then p else 0),
      order = 0, sys_enabled = True, initialized = True, has_execute = ex,
      mandatoryQueries = mandatory\<rparr>"

text \<open>
  The comparator \<^verbatim>\<open>a.priority - b.priority || a.order - b.order\<close> compares the pairs
  \<open>(priority, order)\<close> lexicographically; \<^verbatim>\<open>Array.prototype.sort\<close> is stable.
\<close>

definition sortSystems :: "system_manager \<Rightarrow> system_manager" where
  "sortSystems sm = sm\<lparr>systems := sort_key (\<lambda>s. (priority s, order s)) (systems sm)\<rparr>"

definition registerSystem ::
  "bool \<Rightarrow> string list \<Rightarrow> int option \<Rightarrow> system_manager \<Rightarrow> system_manager" where
  "registerSystem ex mandatory attributes sm =
     (let system = (System_new (constructed sm) ex mandatory attributes)
                     \<lparr>order := length (systems sm)\<rparr>
      in sortSystems (sm\<lparr>systems := systems sm @ [system], constructed := constructed sm + 1\<rparr>))"

definition removeSystem :: "system \<Rightarrow> system_manager \<Rightarrow> system_manager" where
  "removeSystem s sm =
     (let index = indexOf (systems sm) s in
      if index = - 1 then sm else sm\<lparr>systems := splice1 index (systems sm)\<rparr>)"

primrec canExecute_loop :: "string list \<Rightarrow> manager \<Rightarrow> bool" where
  "canExecute_loop [] m = True"
| "canExecute_loop (k # ks) m =
     (case map_of (queries_map m) k of
        None \<Rightarrow> False
      | Some query \<Rightarrow> if length (q_entities query) = 0 then False else canExecute_loop ks m)"

definition canExecute :: "system \<Rightarrow> manager \<Rightarrow> bool" where
  "canExecute s m = (if length (mandatoryQueries s) = 0 then True
                     else canExecute_loop (mandatoryQueries s) m)"

text \<open>
  \<open>SystemManager.execute\<close>: the systems in the order of the array; the result holds the
  systems whose \<^verbatim>\<open>execute\<close> was invoked, in the order of invocation.
\<close>

fun systems_forEach ::
  "(nat \<Rightarrow> manager \<Rightarrow> manager) \<Rightarrow> system list \<Rightarrow> manager \<Rightarrow> manager \<times> system list" where
  "systems_forEach run [] m = (m, [])"
| "systems_forEach run (s # ss) m =
     (if sys_enabled s \<and> initialized s
      then (if has_execute s \<and> canExecute s m
            then (case systems_forEach run ss (run (sys_id s) m) of
                    (m', trace) \<Rightarrow> (m', s # trace))
            else systems_forEach run ss m)
      else systems_forEach run ss m)"

definition SystemManager_execute ::
  "(nat \<Rightarrow> manager \<Rightarrow> manager) \<Rightarrow> system_manager \<Rightarrow> manager \<Rightarrow> manager \<times> system list" where
  "SystemManager_execute run sm m = systems_forEach run (systems sm) m"

record world =
  enabled :: bool
  systemManager :: system_manager
  entityManager :: manager

definition World_new :: world where
  "World_new = \<lparr>enabled = True, systemManager = SystemManager_new, entityManager = EntityManager_new\<rparr>"

definition World_execute ::
  "(nat \<Rightarrow> manager \<Rightarrow> manager) \<Rightarrow> world \<Rightarrow> error + world \<times> system list" where
  "World_execute run w =
     (if enabled w
      then (case SystemManager_execute run (systemManager w) (entityManager w) of
              (m1, trace) \<Rightarrow>
                (case processDeferredRemoval m1 of
                   Inl err \<Rightarrow> Inl err
                 | Inr m2 \<Rightarrow> Inr (w\<lparr>entityManager := m2\<rparr>, trace)))
      else Inr (w, []))"

text \<open>The system managers a program can build.\<close>

inductive reachable_systems :: "system_manager \<Rightarrow> bool" where
  rs_new: "reachable_systems SystemManager_new"
| rs_register: "reachable_systems sm \<Longrightarrow> reachable_systems (registerSystem ex mandatory attributes sm)"
| rs_remove: "reachable_systems sm \<Longrightarrow> reachable_systems (removeSystem s sm)"

text \<open>Those built by registrations alone.\<close>

inductive registered_only :: "system_manager \<Rightarrow> bool" where
  ro_new: "registered_only SystemManager_new"
| ro_register: "registered_only sm \<Longrightarrow> registered_only (registerSystem ex mandatory attributes sm)"



text \<open>
  \<open>invoked_before a b xs\<close>: in the list of invocations \<open>xs\<close>, the first invocation of \<open>a\<close>
  is followed by one of \<open>b\<close>.
\<close>

primrec invoked_before :: "'a \<Rightarrow> 'a \<Rightarrow> 'a list \<Rightarrow> bool" where
  "invoked_before a b [] = False"
| "invoked_before a b (x # xs) = (if x = a then b \<in> set xs else invoked_before a b xs)"

definition no_effect :: "nat \<Rightarrow> manager \<Rightarrow> manager" where
  "no_effect sid m = m"

text \<open>Scenario S4: systems of priority 1, -1 and 0, registered in this order.\<close>

definition sm_s4 :: system_manager where
  "sm_s4 = registerSystem True [] (Some 0)
             (registerSystem True [] (Some (- 1))
                (registerSystem True [] (Some 1) SystemManager_new))"

definition sys_lo :: system where
  "sys_lo = (System_new 0 True [] (Some 1))\<lparr>order := 0\<rparr>"

definition sys_hi :: system where
  "sys_hi = (System_new 1 True [] (Some (- 1)))\<lparr>order := 1\<rparr>"

definition sys_mid :: system where
  "sys_mid = (System_new 2 True [] (Some 0))\<lparr>order := 2\<rparr>"

text \<open>
  Three systems are registered, the first two are removed, and a fourth is registered:
  it gets \<open>order = 1\<close>, below the \<open>order = 2\<close> of the third.
\<close>

definition sys_a :: system where
  "sys_a = (System_new 0 True [] None)\<lparr>order := 0\<rparr>"

definition sys_b :: system where
  "sys_b = (System_new 1 True [] None)\<lparr>order := 1\<rparr>"

definition sys_c :: system where
  "sys_c = (System_new 2 True [] None)\<lparr>order := 2\<rparr>"

definition sys_d :: system where
  "sys_d = (System_new 3 True [] None)\<lparr>order := 1\<rparr>"

definition sm_removed :: system_manager where
  "sm_removed =
     registerSystem True [] None
       (removeSystem sys_b
          (removeSystem sys_a
             (registerSystem True [] None
                (registerSystem True [] None
                   (registerSystem True [] None SystemManager_new)))))"

definition w_s4 :: world where
  "w_s4 = \<lparr>enabled = True, systemManager = sm_s4, entityManager = EntityManager_new\<rparr>"

text \<open>
  Relations used to state what the loops over the queries change: of an entity only its
  \<open>queries\<close>, of a query only its entities and its dispatcher.
\<close>

definition same_but_queries :: "entity \<Rightarrow> entity \<Rightarrow> bool" where
  "same_but_queries ent ent' \<longleftrightarrow> ent' = ent\<lparr>queries := queries ent'\<rparr>"

definition same_but_entities :: "query \<Rightarrow> query \<Rightarrow> bool" where
  "same_but_entities q q' \<longleftrightarrow>
     q' = q\<lparr>q_entities := q_entities q', eventDispatcher := eventDispatcher q'\<rparr>"

text \<open>
  \<open>q_side e q q'\<close>: the step changed the membership of \<open>e\<close> only and kept the entity list
  free of duplicates. \<open>linked e k q ent\<close>: the entity's back-edge list names the query
  exactly if the query lists the entity. \<open>e_side\<close>: the step kept that link and touched no
  other back-edge.
\<close>

definition q_side :: "nat \<Rightarrow> query \<Rightarrow> query \<Rightarrow> bool" where
  "q_side e q q' \<longleftrightarrow>
     same_but_entities q q'
     \<and> (distinct (q_entities q) \<longrightarrow> distinct (q_entities q'))
     \<and> (\<forall>f. f \<noteq> e \<longrightarrow> (f \<in> set (q_entities q') \<longleftrightarrow> f \<in> set (q_entities q)))"

definition linked :: "nat \<Rightarrow> string \<Rightarrow> query \<Rightarrow> entity \<Rightarrow> bool" where
  "linked e k q ent \<longleftrightarrow> (e \<in> set (q_entities q) \<longleftrightarrow> k \<in> set (queries ent))"

definition e_side :: "string \<Rightarrow> entity \<Rightarrow> entity \<Rightarrow> bool" where
  "e_side k ent ent' \<longleftrightarrow>
     distinct (queries ent')
     \<and> (\<forall>k'. k' \<noteq> k \<longrightarrow> (k' \<in> set (queries ent') \<longleftrightarrow> k' \<in> set (queries ent)))"

text \<open>
  The consistency of the query index. \<open>wf_queries\<close>: the keys are distinct, every query
  has a positive component and lists no entity twice. \<open>ent_wf m e\<close>: the entity has no
  component type twice, its back-edge list has no query twice and names exactly the queries
  that list the entity. \<open>ent_matched m e\<close> is the membership property: every query lists
  \<open>e\<close> exactly if \<open>e\<close> matches it. \<open>query_membership\<close> states it of all live entities.
\<close>

definition wf_queries :: "manager \<Rightarrow> bool" where
  "wf_queries m \<longleftrightarrow>
     distinct (map fst (queries_map m))
     \<and> (\<forall>kq \<in> set (queries_map m). q_Components (snd kq) \<noteq> [] \<and> distinct (q_entities (snd kq)))"

definition ent_wf :: "manager \<Rightarrow> nat \<Rightarrow> bool" where
  "ent_wf m e \<longleftrightarrow>
     distinct (ComponentTypes (heap m e)) \<and> distinct (queries (heap m e))
     \<and> (\<forall>kq \<in> set (queries_map m). linked e (fst kq) (snd kq) (heap m e))"

definition ent_matched :: "manager \<Rightarrow> nat \<Rightarrow> bool" where
  "ent_matched m e \<longleftrightarrow>
     (\<forall>kq \<in> set (queries_map m). e \<in> set (q_entities (snd kq)) \<longleftrightarrow> match (snd kq) (heap m e))"

definition query_membership :: "manager \<Rightarrow> bool" where
  "query_membership m \<longleftrightarrow> (\<forall>e \<in> set (entities m). ent_matched m e)"

definition consistent :: "manager \<Rightarrow> bool" where
  "consistent m \<longleftrightarrow>
     wf_queries m \<and> (\<forall>e \<in> set (entities m). ent_wf m e) \<and> query_membership m"

text \<open>
  \<open>retyped m m1 e ts\<close>: \<open>m1\<close> is \<open>m\<close> with the attached types of \<open>e\<close> replaced by \<open>ts\<close>,
  as far as the query index is concerned: same queries, same live entities, same other
  entity objects, same back-edges of \<open>e\<close>.
\<close>

definition retyped :: "manager \<Rightarrow> manager \<Rightarrow> nat \<Rightarrow> ctype list \<Rightarrow> bool" where
  "retyped m m1 e ts \<longleftrightarrow>
     queries_map m1 = queries_map m \<and> entities m1 = entities m
     \<and> (\<forall>f. f \<noteq> e \<longrightarrow> heap m1 f = heap m f)
     \<and> queries (heap m1 e) = queries (heap m e)
     \<and> ComponentTypes (heap m1 e) = ts"

text \<open>The state in which a deferred \<open>entityRemoveComponent\<close> calls the query manager.\<close>

definition staged :: "nat \<Rightarrow> ctype \<Rightarrow> manager \<Rightarrow> manager" where
  "staged e C m =
     (let m0 = em_dispatch COMPONENT_REMOVE e (Some C) m; ent = heap m0 e
      in m0\<lparr>entitiesWithComponentsToRemove :=
               (if length (ComponentTypesToRemove ent) = 0
                then entitiesWithComponentsToRemove m0 @ [e]
                else entitiesWithComponentsToRemove m0),
             heap := (heap m0)(e := ent
               \<lparr>ComponentTypes := remove1 C (ComponentTypes ent),
                ComponentTypesToRemove := ComponentTypesToRemove ent @ [C],
                componentsToRemove :=
                  (componentsToRemove ent)(cname C := components ent (cname C)),
                components := (components ent)(cname C := None)\<rparr>)\<rparr>)"

text \<open>
  \<open>gone m e\<close>: no query lists \<open>e\<close>. \<open>ent_sound m e\<close>: every query that lists \<open>e\<close> is
  matched by \<open>e\<close> (one half of the membership property, which holds all through
  \<open>removeEntity\<close>).
\<close>

definition gone :: "manager \<Rightarrow> nat \<Rightarrow> bool" where
  "gone m e \<longleftrightarrow> (\<forall>kq \<in> set (queries_map m). e \<notin> set (q_entities (snd kq)))"

definition ent_sound :: "manager \<Rightarrow> nat \<Rightarrow> bool" where
  "ent_sound m e \<longleftrightarrow>
     (\<forall>kq \<in> set (queries_map m). e \<in> set (q_entities (snd kq)) \<longrightarrow> match (snd kq) (heap m e))"

definition cA :: ctype where "cA = CType 0 ''A'' True"
definition cB :: ctype where "cB = CType 1 ''B'' True"

definition ex_m1 :: manager where
  "ex_m1 = snd (projr (createEntity EntityManager_new))"

definition ex_m2 :: manager where
  "ex_m2 = snd (projr (getQuery [Plain cA] ex_m1))"

definition ex_m3 :: manager where
  "ex_m3 = projr (removeEntity 0 False ex_m2)"

definition ex_m4 :: manager where
  "ex_m4 = entityAddComponent 0 cA ex_m3"

definition ex_m5 :: manager where
  "ex_m5 = projr (processDeferredRemoval ex_m4)"

definition ex_m6 :: manager where
  "ex_m6 = snd (projr (createEntity ex_m5))"

definition ex_m7 :: manager where
  "ex_m7 = entityAddComponent 0 cB ex_m6"

text \<open>
  \<open>typed_ok\<close>: an entity has no attached type twice, and no type that is both attached
  and staged for removal.
\<close>

definition typed_ok :: "entity \<Rightarrow> bool" where
  "typed_ok ent \<longleftrightarrow>
     distinct (ComponentTypes ent)
     \<and> set (ComponentTypes ent) \<inter> set (ComponentTypesToRemove ent) = {}"

definition c2_m2 :: manager where
  "c2_m2 = entityAddComponent 0 cA ex_m1"

definition c2_m3 :: manager where
  "c2_m3 = projr (entityRemoveComponent 0 cA False c2_m2)"

definition c2_m4 :: manager where
  "c2_m4 = entityAddComponent 0 cA c2_m3"

definition c2_m5 :: manager where
  "c2_m5 = projr (entityRemoveComponent 0 cA False c2_m4)"

definition c5_a2 :: manager where
  "c5_a2 = snd (projr (createEntity ex_m1))"

definition c5_a3 :: manager where
  "c5_a3 = snd (projr (createEntity c5_a2))"

definition c5_b1 :: manager where
  "c5_b1 = projr (removeEntity 0 True ex_m1)"

definition c5_e4 :: nat where
  "c5_e4 = fst (projr (createEntity c5_a3))"

definition c5_a4 :: manager where
  "c5_a4 = snd (projr (createEntity c5_a3))"

definition c5_b2 :: manager where
  "c5_b2 = snd (projr (createEntity c5_b1))"












section \<open>Facts about the array primitives\<close>

lemma indexOf_ge: "- 1 \<le> indexOf xs x"
  by (induction xs) (auto simp: Let_def)

lemma indexOf_absent: "indexOf xs x = - 1 \<longleftrightarrow> x \<notin> set xs"
proof (induction xs)
  case Nil
  show ?case by simp
next
  case (Cons y ys)
  have "- 1 \<le> indexOf ys x" by (rule indexOf_ge)
  with Cons show ?case by (auto simp: Let_def)
qed

lemma indexOf_lt: "x \<in> set xs \<Longrightarrow> 0 \<le> indexOf xs x \<and> indexOf xs x < int (length xs)"
proof (induction xs)
  case Nil
  then show ?case by simp
next
  case (Cons y ys)
  show ?case
  proof (cases "y = x")
    case True
    then show ?thesis by simp
  next
    case False
    with Cons.prems have "x \<in> set ys" by simp
    with Cons.IH have "0 \<le> indexOf ys x \<and> indexOf ys x < int (length ys)" by simp
    with False show ?thesis by (simp add: Let_def)
  qed
qed

lemma splice1_nonneg: "0 \<le> i \<Longrightarrow> splice1 i xs = take (nat i) xs @ drop (nat i + 1) xs"
  by (cases "i \<le> int (length xs)") (simp_all add: splice1_def Let_def min_def)

lemma splice1_indexOf: "x \<in> set xs \<Longrightarrow> splice1 (indexOf xs x) xs = remove1 x xs"
proof (induction xs)
  case Nil
  then show ?case by simp
next
  case (Cons y ys)
  show ?case
  proof (cases "y = x")
    case True
    then show ?thesis by (simp add: splice1_def)
  next
    case False
    with Cons.prems have mem: "x \<in> set ys" by simp
    then have rng: "0 \<le> indexOf ys x" using indexOf_lt by fastforce
    then have ne: "indexOf ys x \<noteq> - 1" by simp
    have "splice1 (indexOf ys x + 1) (y # ys) = y # splice1 (indexOf ys x) ys"
      using rng by (simp add: splice1_nonneg nat_add_distrib)
    with False ne Cons.IH [OF mem] show ?thesis by (simp add: Let_def)
  qed
qed

lemma splice1_minus1: "splice1 (- 1) xs = butlast xs"
  by (cases xs rule: rev_cases) (simp_all add: splice1_def Let_def)


section \<open>EventDispatcher: registrations are never duplicated\<close>







section \<open>ObjectPool: growth\<close>

lemma round_fifth: "round (real n * 0.2) = int ((n + 2) div 5)"
proof -
  define q where "q = (n + 2) div 5"
  define r where "r = (n + 2) mod 5"
  have n: "n + 2 = 5 * q + r" and r: "r < 5" by (simp_all add: q_def r_def)
  have x: "real n * 0.2 + 1 / 2 = real q + (2 * real r + 1) / 10"
  proof -
    have "real (n + 2) = real (5 * q + r)" using n by simp
    then have "real n = 5 * real q + real r - 2" by simp
    then show ?thesis by (simp add: field_simps)
  qed
  have "\<lfloor>real n * 0.2 + 1 / 2\<rfloor> = int q"
    unfolding x using r by (simp add: floor_eq_iff)
  then show ?thesis by (simp add: round_def q_def)
qed

lemma growth_eq: "growth n = (n + 2) div 5 + 1"
  unfolding growth_def round_fifth by simp

lemma ceil_fifth: "\<lceil>real n * 0.2\<rceil> = int ((n + 4) div 5)"
proof -
  define q where "q = (n + 4) div 5"
  define r where "r = (n + 4) mod 5"
  have n: "n + 4 = 5 * q + r" and r: "r < 5" by (simp_all add: q_def r_def)
  have x: "real n * 0.2 = real q + (real r - 4) / 5"
  proof -
    have "real (n + 4) = real (5 * q + r)" using n by simp
    then have "real n = 5 * real q + real r - 4" by simp
    then show ?thesis by (simp add: field_simps)
  qed
  have "\<lceil>real n * 0.2\<rceil> = int q"
    unfolding x using r by (simp add: ceiling_eq_iff)
  then show ?thesis by (simp add: q_def)
qed

lemma spec_growth_eq: "spec_growth n = (n + 4) div 5 + 1"
  unfolding spec_growth_def ceil_fifth by simp

lemma growth_examples: "growth 0 = 1" "growth 100 = 21" "growth 1 = 1" "growth 3 = 2"
  by (simp_all add: growth_eq)

lemma growth_le_spec: "growth n \<le> spec_growth n"
  unfolding growth_eq spec_growth_eq by (simp add: div_le_mono)

lemma expand_loop_length: "length (fst (expand_loop mk n fl h)) = length fl + n"
  by (induction n arbitrary: fl h) (simp_all split: prod.splits)

lemma expand_length:
  "length (freeList (fst (expand mk n p h))) = length (freeList p) + n"
  using expand_loop_length [of mk n "freeList p" h]
  by (simp add: expand_def case_prod_beta)

lemma expand_count: "pool_count (fst (expand mk n p h)) = pool_count p + n"
  by (simp add: expand_def case_prod_beta)

lemma aquire_empty:
  assumes "freeList p = []"
  shows "fst (snd (aquire mk p h)) =
           (fst (expand mk (growth (pool_count p)) p h))
             \<lparr>freeList := butlast (freeList (fst (expand mk (growth (pool_count p)) p h)))\<rparr>"
    and "fst (aquire mk p h) \<noteq> None"
proof -
  have len: "length (freeList (fst (expand mk (growth (pool_count p)) p h))) = growth (pool_count p)"
    using assms by (simp add: expand_length)
  then have ne: "freeList (fst (expand mk (growth (pool_count p)) p h)) \<noteq> []"
    by (auto simp: growth_eq)
  show "fst (snd (aquire mk p h)) =
           (fst (expand mk (growth (pool_count p)) p h))
             \<lparr>freeList := butlast (freeList (fst (expand mk (growth (pool_count p)) p h)))\<rparr>"
    using assms by (simp add: aquire_def case_prod_beta)
  show "fst (aquire mk p h) \<noteq> None"
    using assms ne by (simp add: aquire_def case_prod_beta)
qed

lemma aquire_nonempty:
  assumes "freeList p \<noteq> []"
  shows "aquire mk p h = (Some (last (freeList p)), p\<lparr>freeList := butlast (freeList p)\<rparr>, h)"
  using assms by (simp add: aquire_def)

lemma aquire_item: "fst (aquire mk p h) \<noteq> None"
proof (cases "freeList p = []")
  case True
  then show ?thesis by (rule aquire_empty(2))
next
  case False
  then show ?thesis by (simp add: aquire_nonempty)
qed

lemma pool_after_first_eq: "pool_after_first = \<lparr>freeList = [], pool_count = 1\<rparr>"
  by (simp add: pool_after_first_def aquire_def expand_def growth_eq ObjectPool_new_def
        mk_counter_def)

text \<open>
  C3 (as stated, refuted). A new pool that served one acquire has \<open>count = 1\<close> and an
  empty free list. The next acquire grows it by 1 instance, where
  \<open>ceil(count * 0.2) + 1\<close> is 2.
\<close>

theorem C3_growth_ceil_counterexample:
  "freeList pool_after_first = []
   \<and> pool_count pool_after_first = 1
   \<and> pool_count (fst (snd (aquire mk_counter pool_after_first 1))) = pool_count pool_after_first + 1
   \<and> spec_growth (pool_count pool_after_first) = 2"
  by (simp add: pool_after_first_eq aquire_def expand_def growth_eq spec_growth_eq mk_counter_def)

text \<open>
  C3 (amended). An acquire on an empty free list grows the pool by exactly
  \<open>round(count * 0.2) + 1\<close> instances, which is \<open>(count + 2) div 5 + 1\<close>: the pool's count
  rises by that number, one of the new instances is handed out and the others stay in the
  free list. A fresh pool grows by 1 and a pool of count 100 by 21.
\<close>

theorem C3_growth_round:
  assumes "freeList p = []"
  shows "pool_count (fst (snd (aquire mk p h))) = pool_count p + growth (pool_count p)
       \<and> length (freeList (fst (snd (aquire mk p h)))) + 1 = growth (pool_count p)
       \<and> fst (aquire mk p h) \<noteq> None
       \<and> growth (pool_count p) = (pool_count p + 2) div 5 + 1
       \<and> growth 0 = 1 \<and> growth 100 = 21"
proof -
  have len: "length (freeList (fst (expand mk (growth (pool_count p)) p h))) = growth (pool_count p)"
    using assms by (simp add: expand_length)
  have "pool_count (fst (snd (aquire mk p h))) = pool_count p + growth (pool_count p)"
    by (simp add: aquire_empty(1) [OF assms] expand_count)
  moreover have "length (freeList (fst (snd (aquire mk p h)))) + 1 = growth (pool_count p)"
    using len by (simp add: aquire_empty(1) [OF assms] growth_eq)
  ultimately show ?thesis
    using aquire_empty(2) [OF assms] by (simp add: growth_eq)
qed

theorem C3_growth_round_witness:
  "freeList pool_after_first = []
   \<and> pool_count (fst (snd (aquire mk_counter pool_after_first 1))) = 2
   \<and> length (freeList (fst (snd (aquire mk_counter pool_after_first 1)))) + 1 = 1
   \<and> growth 100 = 21"
  using C3_growth_round [of pool_after_first mk_counter 1]
  by (simp add: pool_after_first_eq growth_eq)

section \<open>ComponentManager: registration\<close>

text \<open>
  C4 (as stated, refuted). Type \<open>A\<close> is registered and attached once, so its counter is 1;
  registering \<open>A\<close> again sets the counter back to 0.
\<close>

theorem C4_register_twice_counterexample:
  "Components cm_example ''A'' = Some (CType 0 ''A'' True)
   \<and> numComponents cm_example ''A'' = Some (Num 1)
   \<and> numComponents (registerComponent (CType 0 ''A'' True) cm_example) ''A'' = Some (Num 0)"
  by (simp add: cm_example_def registerComponent_def componentAddedToEntity_def
        ComponentManager_new_def)

text \<open>
  C4 (amended). Registering a type that is already registered leaves the registry of
  types and the pools unchanged and sets the type's counter to 0; it is a no-op exactly
  when the counter is 0 already.
\<close>

theorem C4_register_twice:
  assumes "Components cm (cname T) = Some T"
  shows "Components (registerComponent T cm) = Components cm
       \<and> componentPool (registerComponent T cm) = componentPool cm
       \<and> numComponents (registerComponent T cm) = (numComponents cm)(cname T \<mapsto> Num 0)
       \<and> (registerComponent T cm = cm \<longleftrightarrow> numComponents cm (cname T) = Some (Num 0))"
proof -
  have reg: "(Components cm)(cname T \<mapsto> T) = Components cm"
    using assms by (simp add: map_upd_triv)
  have iff: "(numComponents cm)(cname T \<mapsto> Num 0) = numComponents cm
               \<longleftrightarrow> numComponents cm (cname T) = Some (Num 0)"
    by (metis fun_upd_same map_upd_triv)
  have eq: "registerComponent T cm = cm\<lparr>numComponents := (numComponents cm)(cname T \<mapsto> Num 0)\<rparr>"
    by (simp add: registerComponent_def reg)
  have "(cm\<lparr>numComponents := (numComponents cm)(cname T \<mapsto> Num 0)\<rparr> = cm)
          \<longleftrightarrow> (numComponents cm)(cname T \<mapsto> Num 0) = numComponents cm"
    by (metis component_manager.select_convs(3) component_manager.surjective
          component_manager.update_convs(3))
  with iff eq show ?thesis by (simp add: reg)
qed

theorem C4_register_twice_witness:
  "Components cm_example ''A'' = Some (CType 0 ''A'' True)
   \<and> numComponents (registerComponent (CType 0 ''A'' True) cm_example)
       = (numComponents cm_example)(''A'' \<mapsto> Num 0)
   \<and> registerComponent (CType 0 ''A'' True) cm_example \<noteq> cm_example"
proof -
  have reg: "Components cm_example (cname (CType 0 ''A'' True)) = Some (CType 0 ''A'' True)"
    by (simp add: cm_example_def registerComponent_def componentAddedToEntity_def)
  have n1: "numComponents cm_example ''A'' = Some (Num 1)"
    by (simp add: cm_example_def registerComponent_def componentAddedToEntity_def
          ComponentManager_new_def)
  show ?thesis
    using C4_register_twice [OF reg] reg n1 by simp
qed

section \<open>Query keys and query lookup\<close>






lemma map_of_append_new: "map_of qs k = None \<Longrightarrow> map_of (qs @ [(k, q)]) k = Some q"
  by (simp add: map_add_def)








section \<open>SystemManager: the order of execution\<close>

definition sys_key :: "system \<Rightarrow> int \<times> nat" where
  "sys_key s = (priority s, order s)"

lemma sortSystems_key: "systems (sortSystems sm) = sort_key sys_key (systems sm)"
  by (simp add: sortSystems_def sys_key_def [abs_def])

lemma reachable_systems_sorted: "reachable_systems sm \<Longrightarrow> sorted (map sys_key (systems sm))"
proof (induction rule: reachable_systems.induct)
  case rs_new
  show ?case by (simp add: SystemManager_new_def)
next
  case (rs_register sm ex mandatory attributes)
  show ?case by (simp add: registerSystem_def Let_def sortSystems_key)
next
  case (rs_remove sm s)
  show ?case
  proof (cases "s \<in> set (systems sm)")
    case True
    then have "systems (removeSystem s sm) = remove1 s (systems sm)"
      by (simp add: removeSystem_def Let_def indexOf_absent splice1_indexOf)
    with rs_remove.IH show ?thesis by (simp add: sorted_map_remove1)
  next
    case False
    then have "removeSystem s sm = sm"
      by (simp add: removeSystem_def Let_def indexOf_absent)
    with rs_remove.IH show ?thesis by simp
  qed
qed

lemma sortSystems_constructed: "constructed (sortSystems sm) = constructed sm"
  by (simp add: sortSystems_def)

lemma registered_only_order:
  "registered_only sm \<Longrightarrow>
     length (systems sm) = constructed sm \<and> (\<forall>s \<in> set (systems sm). order s = sys_id s)"
proof (induction rule: registered_only.induct)
  case ro_new
  show ?case by (simp add: SystemManager_new_def)
next
  case (ro_register sm ex mandatory attributes)
  then show ?case
    by (auto simp: registerSystem_def Let_def sortSystems_key sortSystems_constructed System_new_def)
qed

lemma systems_forEach_subset: "set (snd (systems_forEach run ss m)) \<subseteq> set ss"
  by (induction ss arbitrary: m) (auto simp: case_prod_beta)

lemma systems_forEach_sorted:
  "sorted (map f ss) \<Longrightarrow> sorted (map f (snd (systems_forEach run ss m)))"
proof (induction ss arbitrary: m)
  case Nil
  show ?case by simp
next
  case (Cons s ss)
  from Cons.prems have tl: "sorted (map f ss)" and hd: "\<forall>x \<in> set ss. f s \<le> f x" by auto
  have sub: "\<And>m'. set (snd (systems_forEach run ss m')) \<subseteq> set ss"
    by (rule systems_forEach_subset)
  show ?case
    using Cons.IH [OF tl] hd sub by (auto simp: case_prod_beta)
qed

lemma invoked_before_le:
  "sorted (map f xs) \<Longrightarrow> invoked_before b a xs \<Longrightarrow> f b \<le> f a"
  by (induction xs) (auto split: if_splits)

lemma invoked_before_first:
  "sorted (map f xs) \<Longrightarrow> a \<in> set xs \<Longrightarrow> b \<in> set xs \<Longrightarrow> f a < f b \<Longrightarrow>
     invoked_before a b xs"
proof (induction xs)
  case Nil
  then show ?case by simp
next
  case (Cons x xs)
  from Cons.prems(1) have tl: "sorted (map f xs)" and hd: "\<forall>y \<in> set xs. f x \<le> f y" by auto
  show ?case
  proof (cases "x = a")
    case True
    with Cons.prems have "b \<in> set xs" by auto
    with True show ?thesis by simp
  next
    case False
    with Cons.prems(2) have a: "a \<in> set xs" by simp
    have "x \<noteq> b"
    proof
      assume "x = b"
      with hd a have "f b \<le> f a" by simp
      with Cons.prems(4) show False by simp
    qed
    with Cons.prems(3) have b: "b \<in> set xs" by simp
    from Cons.IH [OF tl a b Cons.prems(4)] False show ?thesis by simp
  qed
qed

lemma sorted_invoked_before:
  assumes "sorted (map f xs)" and "a \<in> set xs" and "b \<in> set xs" and "f a < f b"
  shows "invoked_before a b xs \<and> \<not> invoked_before b a xs"
proof
  show "invoked_before a b xs" using assms by (rule invoked_before_first)
  show "\<not> invoked_before b a xs"
  proof
    assume "invoked_before b a xs"
    with assms(1) have "f b \<le> f a" by (rule invoked_before_le)
    with assms(4) show False by simp
  qed
qed

lemma World_execute_invoked:
  assumes "World_execute run w = Inr (w', invoked)"
  shows "invoked = [] \<or> invoked = snd (systems_forEach run (systems (systemManager w)) (entityManager w))"
  using assms
  by (auto simp: World_execute_def SystemManager_execute_def case_prod_beta
           split: if_splits sum.splits)

text \<open>
  C9 (the code breaks the claim). Three systems are registered, the first two are removed
  and a fourth is registered. \<open>registerSystem\<close> gives it \<open>order = 1\<close>, the length of
  the system vector, which is below the \<open>order = 2\<close> of the third system: at equal
  priority the fourth system registered (\<open>sys_d\<close>) is invoked before the third (\<open>sys_c\<close>).
\<close>

theorem C9_registration_order_broken:
  "snd (SystemManager_execute no_effect sm_removed EntityManager_new) = [sys_d, sys_c]
   \<and> priority sys_d = priority sys_c
   \<and> sys_id sys_c < sys_id sys_d"
  by (simp add: sm_removed_def SystemManager_execute_def registerSystem_def removeSystem_def
        sortSystems_def SystemManager_new_def System_new_def sys_a_def sys_b_def sys_c_def
        sys_d_def splice1_def canExecute_def no_effect_def)

text \<open>
  What does hold of every system manager built by registrations and removals: within one
  frame of \<open>World.execute\<close>, of any two systems that are invoked the one of lower
  priority is invoked first, and at equal priority the one of lower \<open>order\<close> is; when no
  system was ever removed, \<open>order\<close> is the number of the registration, so that ties are
  then broken by registration order.
\<close>

lemma priority_then_order:
  assumes "reachable_systems (systemManager w)"
    and "World_execute run w = Inr (w', invoked)"
    and "S1 \<in> set invoked" and "S2 \<in> set invoked"
  shows "(priority S1 < priority S2 \<or> priority S1 = priority S2 \<and> order S1 < order S2
            \<longrightarrow> invoked_before S1 S2 invoked \<and> \<not> invoked_before S2 S1 invoked)
       \<and> (registered_only (systemManager w)
            \<longrightarrow> order S1 = sys_id S1 \<and> order S2 = sys_id S2)"
proof -
  from assms(2,3) World_execute_invoked [OF assms(2)]
  have inv: "invoked = snd (systems_forEach run (systems (systemManager w)) (entityManager w))"
    by auto
  have srt: "sorted (map sys_key invoked)"
    unfolding inv using reachable_systems_sorted [OF assms(1)] by (rule systems_forEach_sorted)
  have sub: "set invoked \<subseteq> set (systems (systemManager w))"
    unfolding inv by (rule systems_forEach_subset)
  have one: "priority S1 < priority S2 \<or> priority S1 = priority S2 \<and> order S1 < order S2
            \<longrightarrow> invoked_before S1 S2 invoked \<and> \<not> invoked_before S2 S1 invoked"
  proof
    assume "priority S1 < priority S2 \<or> priority S1 = priority S2 \<and> order S1 < order S2"
    then have "sys_key S1 < sys_key S2" by (auto simp: sys_key_def)
    with srt assms(3,4) show "invoked_before S1 S2 invoked \<and> \<not> invoked_before S2 S1 invoked"
      by (rule sorted_invoked_before)
  qed
  have two: "registered_only (systemManager w) \<longrightarrow> order S1 = sys_id S1 \<and> order S2 = sys_id S2"
    using registered_only_order [of "systemManager w"] sub assms(3,4) by auto
  from one two show ?thesis by simp
qed

lemma sm_s4_systems: "systems sm_s4 = [sys_hi, sys_mid, sys_lo]"
  by (simp add: sm_s4_def registerSystem_def sortSystems_def SystemManager_new_def System_new_def
        sys_lo_def sys_hi_def sys_mid_def)

lemma processDeferredRemoval_new: "processDeferredRemoval EntityManager_new = Inr EntityManager_new"
  by (simp add: processDeferredRemoval_def EntityManager_new_def)

lemma w_s4_execute: "World_execute no_effect w_s4 = Inr (w_s4, [sys_hi, sys_mid, sys_lo])"
  by (simp add: World_execute_def SystemManager_execute_def w_s4_def sm_s4_systems
        processDeferredRemoval_new canExecute_def no_effect_def sys_lo_def sys_hi_def
        sys_mid_def System_new_def)

lemma priority_then_order_example:
  "reachable_systems (systemManager w_s4)
   \<and> World_execute no_effect w_s4 = Inr (w_s4, [sys_hi, sys_mid, sys_lo])
   \<and> priority sys_hi < priority sys_lo
   \<and> invoked_before sys_hi sys_lo [sys_hi, sys_mid, sys_lo]
   \<and> \<not> invoked_before sys_lo sys_hi [sys_hi, sys_mid, sys_lo]
   \<and> registered_only (systemManager w_s4)
   \<and> order sys_hi = sys_id sys_hi \<and> order sys_lo = sys_id sys_lo"
proof -
  have ro: "registered_only (systemManager w_s4)"
    unfolding w_s4_def sm_s4_def by (simp add: ro_new ro_register)
  have r: "reachable_systems (systemManager w_s4)"
    unfolding w_s4_def sm_s4_def by (simp add: rs_new rs_register)
  have p: "priority sys_hi < priority sys_lo"
    by (simp add: sys_hi_def sys_lo_def System_new_def)
  have m1: "sys_hi \<in> set [sys_hi, sys_mid, sys_lo]" and m2: "sys_lo \<in> set [sys_hi, sys_mid, sys_lo]"
    by simp_all
  from priority_then_order [OF r w_s4_execute m1 m2] ro r p w_s4_execute
  show ?thesis by blast
qed

section \<open>Matching\<close>

lemma hasComponent_iff: "hasComponent ent C \<longleftrightarrow> C \<in> set (ComponentTypes ent)"
  by (simp add: hasComponent_def indexOf_absent)

lemma hasAllComponents_iff: "hasAllComponents ent Cs \<longleftrightarrow> set Cs \<subseteq> set (ComponentTypes ent)"
  by (induction Cs) (simp_all add: hasComponent_iff)

lemma hasAnyComponents_iff: "hasAnyComponents ent Cs \<longleftrightarrow> set Cs \<inter> set (ComponentTypes ent) \<noteq> {}"
  by (induction Cs) (simp_all add: hasComponent_iff)

lemma match_iff:
  "match q ent \<longleftrightarrow>
     set (q_Components q) \<subseteq> set (ComponentTypes ent)
     \<and> set (q_NotComponents q) \<inter> set (ComponentTypes ent) = {}"
  by (simp add: match_def hasAllComponents_iff hasAnyComponents_iff)

lemma match_cong:
  "q_Components q' = q_Components q \<Longrightarrow> q_NotComponents q' = q_NotComponents q \<Longrightarrow>
   ComponentTypes ent' = ComponentTypes ent \<Longrightarrow> match q' ent' = match q ent"
  by (simp add: match_iff)

section \<open>The steps of the query loops\<close>

lemma same_but_queries_refl: "same_but_queries ent ent"
  by (simp add: same_but_queries_def)

lemma same_but_queries_trans:
  "same_but_queries a b \<Longrightarrow> same_but_queries b c \<Longrightarrow> same_but_queries a c"
  unfolding same_but_queries_def by (metis entity.update_convs(6) entity.surjective)

lemma same_but_queries_fields:
  assumes "same_but_queries ent ent'"
  shows "ComponentTypes ent' = ComponentTypes ent"
    and "ComponentTypesToRemove ent' = ComponentTypesToRemove ent"
    and "components ent' = components ent"
    and "componentsToRemove ent' = componentsToRemove ent"
    and "id_ent ent' = id_ent ent"
    and "e_world ent' = e_world ent"
proof -
  from assms have eq: "ent' = ent\<lparr>queries := queries ent'\<rparr>" by (simp add: same_but_queries_def)
  show "ComponentTypes ent' = ComponentTypes ent" by (subst eq) simp
  show "ComponentTypesToRemove ent' = ComponentTypesToRemove ent" by (subst eq) simp
  show "components ent' = components ent" by (subst eq) simp
  show "componentsToRemove ent' = componentsToRemove ent" by (subst eq) simp
  show "id_ent ent' = id_ent ent" by (subst eq) simp
  show "e_world ent' = e_world ent" by (subst eq) simp
qed

lemma same_but_entities_refl: "same_but_entities q q"
  by (simp add: same_but_entities_def)

lemma same_but_entities_fields:
  assumes "same_but_entities q q'"
  shows "q_Components q' = q_Components q"
    and "q_NotComponents q' = q_NotComponents q"
    and "reactive q' = reactive q"
    and "q_key q' = q_key q"
proof -
  from assms have eq: "q' = q\<lparr>q_entities := q_entities q', eventDispatcher := eventDispatcher q'\<rparr>"
    by (simp add: same_but_entities_def)
  show "q_Components q' = q_Components q" by (subst eq) simp
  show "q_NotComponents q' = q_NotComponents q" by (subst eq) simp
  show "reactive q' = reactive q" by (subst eq) simp
  show "q_key q' = q_key q" by (subst eq) simp
qed

lemma q_side_refl: "q_side e q q"
  by (simp add: q_side_def same_but_entities_refl)

lemma e_side_refl: "distinct (queries ent) \<Longrightarrow> e_side k ent ent"
  by (simp add: e_side_def)

lemma Query_addEntity_q:
  "e \<notin> set (q_entities q) \<Longrightarrow> q_side e q (fst (Query_addEntity e k q ent))"
  by (auto simp: Query_addEntity_def q_side_def same_but_entities_def)

lemma Query_addEntity_entities:
  "q_entities (fst (Query_addEntity e k q ent)) = q_entities q @ [e]"
  by (simp add: Query_addEntity_def)

lemma Query_addEntity_e:
  "snd (Query_addEntity e k q ent) = ent\<lparr>queries := queries ent @ [k]\<rparr>"
  by (simp add: Query_addEntity_def)

lemma Query_removeEntity_q: "q_side e q (fst (Query_removeEntity e k q ent))"
  by (auto simp: Query_removeEntity_def Let_def q_side_def same_but_entities_def
        indexOf_absent splice1_indexOf)

lemma Query_removeEntity_entities:
  "q_entities (fst (Query_removeEntity e k q ent)) = remove1 e (q_entities q)"
  by (auto simp: Query_removeEntity_def Let_def indexOf_absent splice1_indexOf remove1_idem)

lemma Query_removeEntity_e:
  "snd (Query_removeEntity e k q ent) =
     (if e \<in> set (q_entities q)
      then ent\<lparr>queries := splice1 (indexOf (queries ent) k) (queries ent)\<rparr> else ent)"
  by (simp add: Query_removeEntity_def Let_def indexOf_absent)

subsection \<open>Adding to and removing from a query\<close>

lemma splice1_indexOf_distinct:
  "distinct xs \<Longrightarrow> x \<in> set xs \<Longrightarrow>
     distinct (splice1 (indexOf xs x) xs) \<and> set (splice1 (indexOf xs x) xs) = set xs - {x}"
  by (simp add: splice1_indexOf)

lemma Query_removeEntity_link:
  assumes "linked e k q ent" and "distinct (queries ent)" and "distinct (q_entities q)"
  shows "e_side k ent (snd (Query_removeEntity e k q ent))
       \<and> linked e k (fst (Query_removeEntity e k q ent)) (snd (Query_removeEntity e k q ent))"
proof (cases "e \<in> set (q_entities q)")
  case True
  with assms(1) have k: "k \<in> set (queries ent)" by (simp add: linked_def)
  have snd_eq: "snd (Query_removeEntity e k q ent) = ent\<lparr>queries := remove1 k (queries ent)\<rparr>"
    using True k by (simp add: Query_removeEntity_e splice1_indexOf)
  show ?thesis
    using assms(2,3) True k
    by (auto simp: snd_eq Query_removeEntity_entities e_side_def linked_def)
next
  case False
  then have "Query_removeEntity e k q ent = (q, ent)"
    by (simp add: Query_removeEntity_def Let_def indexOf_absent)
  with assms show ?thesis by (simp add: e_side_def)
qed

lemma Query_addEntity_link:
  assumes "linked e k q ent" and "distinct (queries ent)" and "e \<notin> set (q_entities q)"
  shows "e_side k ent (snd (Query_addEntity e k q ent))
       \<and> linked e k (fst (Query_addEntity e k q ent)) (snd (Query_addEntity e k q ent))"
  using assms
  by (auto simp: Query_addEntity_e Query_addEntity_entities e_side_def linked_def)

lemma Query_addEntity_same: "same_but_queries ent (snd (Query_addEntity e k q ent))"
  by (simp add: Query_addEntity_e same_but_queries_def)

lemma Query_removeEntity_same: "same_but_queries ent (snd (Query_removeEntity e k q ent))"
  by (simp add: Query_removeEntity_e same_but_queries_def)

subsection \<open>The body of onEntityRemoved\<close>

lemma onEntityRemoved_body_q: "q_side e q (fst (onEntityRemoved_body e k q ent))"
  by (simp add: onEntityRemoved_body_def Query_removeEntity_q q_side_refl)

lemma onEntityRemoved_body_same: "same_but_queries ent (snd (onEntityRemoved_body e k q ent))"
  by (simp add: onEntityRemoved_body_def Query_removeEntity_same same_but_queries_refl)

lemma onEntityRemoved_body_link:
  assumes "linked e k q ent" and "distinct (queries ent)" and "distinct (q_entities q)"
  shows "e_side k ent (snd (onEntityRemoved_body e k q ent))
       \<and> linked e k (fst (onEntityRemoved_body e k q ent)) (snd (onEntityRemoved_body e k q ent))"
proof (cases "indexOf (queries ent) k \<noteq> - 1")
  case True
  then have "onEntityRemoved_body e k q ent = Query_removeEntity e k q ent"
    by (simp add: onEntityRemoved_body_def)
  with Query_removeEntity_link [OF assms] show ?thesis by simp
next
  case False
  then have "onEntityRemoved_body e k q ent = (q, ent)"
    by (simp add: onEntityRemoved_body_def)
  with assms show ?thesis by (simp add: e_side_def)
qed

lemma onEntityRemoved_body_gone:
  assumes "linked e k q ent" and "distinct (q_entities q)"
  shows "e \<notin> set (q_entities (fst (onEntityRemoved_body e k q ent)))"
proof (cases "indexOf (queries ent) k \<noteq> - 1")
  case True
  then have "onEntityRemoved_body e k q ent = Query_removeEntity e k q ent"
    by (simp add: onEntityRemoved_body_def)
  with assms(2) show ?thesis by (simp add: Query_removeEntity_entities)
next
  case False
  then have "onEntityRemoved_body e k q ent = (q, ent)" and "k \<notin> set (queries ent)"
    by (simp_all add: onEntityRemoved_body_def indexOf_absent)
  with assms(1) show ?thesis by (simp add: linked_def)
qed

subsection \<open>The body of onEntityComponentAdded\<close>

lemma onEntityComponentAdded_body_cases:
  "onEntityComponentAdded_body e C k q ent =
     (if C \<in> set (q_NotComponents q) \<and> e \<in> set (q_entities q)
      then Query_removeEntity e k q ent
      else if C \<notin> set (q_Components q) \<or> \<not> match q ent \<or> e \<in> set (q_entities q)
      then (q, ent)
      else Query_addEntity e k q ent)"
  by (simp add: onEntityComponentAdded_body_def indexOf_absent)

lemma onEntityComponentAdded_body_q: "q_side e q (fst (onEntityComponentAdded_body e C k q ent))"
  by (simp add: onEntityComponentAdded_body_cases Query_removeEntity_q Query_addEntity_q q_side_refl)

lemma onEntityComponentAdded_body_same:
  "same_but_queries ent (snd (onEntityComponentAdded_body e C k q ent))"
  by (simp add: onEntityComponentAdded_body_cases Query_removeEntity_same Query_addEntity_same
        same_but_queries_refl)

lemma onEntityComponentAdded_body_link:
  assumes "linked e k q ent" and "distinct (queries ent)" and "distinct (q_entities q)"
  shows "e_side k ent (snd (onEntityComponentAdded_body e C k q ent))
       \<and> linked e k (fst (onEntityComponentAdded_body e C k q ent))
            (snd (onEntityComponentAdded_body e C k q ent))"
  using Query_removeEntity_link [OF assms] Query_addEntity_link [OF assms(1,2)] assms
  by (simp add: onEntityComponentAdded_body_cases e_side_def)

lemma onEntityComponentAdded_body_member:
  assumes "distinct (q_entities q)"
  shows "e \<in> set (q_entities (fst (onEntityComponentAdded_body e C k q ent))) \<longleftrightarrow>
           (if C \<in> set (q_NotComponents q) \<and> e \<in> set (q_entities q) then False
            else if C \<notin> set (q_Components q) \<or> \<not> match q ent \<or> e \<in> set (q_entities q)
            then e \<in> set (q_entities q) else True)"
  using assms
  by (simp add: onEntityComponentAdded_body_cases Query_removeEntity_entities
        Query_addEntity_entities)

subsection \<open>The body of onEntityComponentRemoved\<close>

lemma onEntityComponentRemoved_body_cases:
  "onEntityComponentRemoved_body e C k q ent =
     (if C \<in> set (q_NotComponents q) \<and> e \<notin> set (q_entities q) \<and> match q ent
      then Query_addEntity e k q ent
      else if C \<in> set (q_Components q) \<and> e \<in> set (q_entities q) \<and> \<not> match q ent
      then Query_removeEntity e k q ent
      else (q, ent))"
  by (simp add: onEntityComponentRemoved_body_def indexOf_absent)

lemma onEntityComponentRemoved_body_q:
  "q_side e q (fst (onEntityComponentRemoved_body e C k q ent))"
  by (simp add: onEntityComponentRemoved_body_cases Query_removeEntity_q Query_addEntity_q
        q_side_refl)

lemma onEntityComponentRemoved_body_same:
  "same_but_queries ent (snd (onEntityComponentRemoved_body e C k q ent))"
  by (simp add: onEntityComponentRemoved_body_cases Query_removeEntity_same Query_addEntity_same
        same_but_queries_refl)

lemma onEntityComponentRemoved_body_link:
  assumes "linked e k q ent" and "distinct (queries ent)" and "distinct (q_entities q)"
  shows "e_side k ent (snd (onEntityComponentRemoved_body e C k q ent))
       \<and> linked e k (fst (onEntityComponentRemoved_body e C k q ent))
            (snd (onEntityComponentRemoved_body e C k q ent))"
  using Query_removeEntity_link [OF assms] Query_addEntity_link [OF assms(1,2)] assms
  by (simp add: onEntityComponentRemoved_body_cases e_side_def)

lemma onEntityComponentRemoved_body_member:
  assumes "distinct (q_entities q)"
  shows "e \<in> set (q_entities (fst (onEntityComponentRemoved_body e C k q ent))) \<longleftrightarrow>
           (if C \<in> set (q_NotComponents q) \<and> e \<notin> set (q_entities q) \<and> match q ent then True
            else if C \<in> set (q_Components q) \<and> e \<in> set (q_entities q) \<and> \<not> match q ent
            then False else e \<in> set (q_entities q))"
  using assms
  by (simp add: onEntityComponentRemoved_body_cases Query_removeEntity_entities
        Query_addEntity_entities)

section \<open>The loop over the queries\<close>

lemma query_loop_keys: "map fst (fst (query_loop body qs ent)) = map fst qs"
  by (induction qs arbitrary: ent) (auto simp: case_prod_beta)

lemma query_loop_Cons:
  "query_loop body ((k, q) # qs) ent =
     ((k, fst (body k q ent)) # fst (query_loop body qs (snd (body k q ent))),
      snd (query_loop body qs (snd (body k q ent))))"
  by (simp add: case_prod_beta)

text \<open>What each step guarantees of its query, the loop guarantees of every query.\<close>

lemma query_loop_q:
  assumes "\<And>k q ent'. (k, q) \<in> set qs \<Longrightarrow> same_but_queries ent ent' \<Longrightarrow>
             R k q (fst (body k q ent')) \<and> same_but_queries ent' (snd (body k q ent'))"
  shows "list_all2 (\<lambda>kq kq'. fst kq' = fst kq \<and> R (fst kq) (snd kq) (snd kq')) qs
           (fst (query_loop body qs ent))
       \<and> same_but_queries ent (snd (query_loop body qs ent))"
  using assms
proof (induction qs arbitrary: ent)
  case Nil
  show ?case by (simp add: same_but_queries_refl)
next
  case (Cons kq qs)
  obtain k q where kq: "kq = (k, q)" by (cases kq)
  let ?ent1 = "snd (body k q ent)"
  have head: "R k q (fst (body k q ent)) \<and> same_but_queries ent ?ent1"
    using Cons.prems [of k q ent] kq by (simp add: same_but_queries_refl)
  have tl: "list_all2 (\<lambda>kq kq'. fst kq' = fst kq \<and> R (fst kq) (snd kq) (snd kq')) qs
              (fst (query_loop body qs ?ent1))
          \<and> same_but_queries ?ent1 (snd (query_loop body qs ?ent1))"
  proof (rule Cons.IH)
    fix k' q' ent'
    assume mem: "(k', q') \<in> set qs" and same: "same_but_queries ?ent1 ent'"
    from head same have "same_but_queries ent ent'" by (blast intro: same_but_queries_trans)
    with mem show "R k' q' (fst (body k' q' ent')) \<and> same_but_queries ent' (snd (body k' q' ent'))"
      using Cons.prems [of k' q' ent'] by simp
  qed
  from head tl show ?case
    unfolding kq query_loop_Cons by (auto intro: same_but_queries_trans)
qed

text \<open>The back-edges: the loop keeps every query linked with the entity.\<close>

lemma query_loop_link_G:
  assumes "\<And>k q ent'. (k, q) \<in> set qs \<Longrightarrow> linked e k q ent' \<Longrightarrow> distinct (queries ent') \<Longrightarrow>
             e_side k ent' (snd (body k q ent'))
             \<and> linked e k (fst (body k q ent')) (snd (body k q ent'))
             \<and> G (fst (body k q ent'))"
    and "distinct (map fst qs)"
    and "\<forall>kq \<in> set qs. linked e (fst kq) (snd kq) ent"
    and "distinct (queries ent)"
  shows "distinct (queries (snd (query_loop body qs ent)))
       \<and> (\<forall>k'. k' \<notin> fst ` set qs \<longrightarrow>
             (k' \<in> set (queries (snd (query_loop body qs ent))) \<longleftrightarrow> k' \<in> set (queries ent)))
       \<and> (\<forall>kq' \<in> set (fst (query_loop body qs ent)).
             linked e (fst kq') (snd kq') (snd (query_loop body qs ent)) \<and> G (snd kq'))"
  using assms
proof (induction qs arbitrary: ent)
  case Nil
  then show ?case by simp
next
  case (Cons kq qs)
  obtain k q where kq: "kq = (k, q)" by (cases kq)
  let ?q1 = "fst (body k q ent)"
  let ?ent1 = "snd (body k q ent)"
  let ?fin = "snd (query_loop body qs ?ent1)"
  have lk: "linked e k q ent" using Cons.prems(3) kq by simp
  have head: "e_side k ent ?ent1 \<and> linked e k ?q1 ?ent1 \<and> G ?q1"
    using Cons.prems(1) [of k q ent] kq lk Cons.prems(4) by simp
  have knot: "k \<notin> fst ` set qs" and dk: "distinct (map fst qs)"
    using Cons.prems(2) kq by auto
  have d1: "distinct (queries ?ent1)" using head by (simp add: e_side_def)
  have frame1: "\<And>k'. k' \<noteq> k \<Longrightarrow> k' \<in> set (queries ?ent1) \<longleftrightarrow> k' \<in> set (queries ent)"
    using head by (simp add: e_side_def)
  have lk1: "\<forall>kq \<in> set qs. linked e (fst kq) (snd kq) ?ent1"
  proof
    fix kq' assume m: "kq' \<in> set qs"
    then have "fst kq' \<noteq> k" using knot by auto
    with frame1 Cons.prems(3) m show "linked e (fst kq') (snd kq') ?ent1"
      by (simp add: linked_def)
  qed
  have step: "\<And>k q ent'. (k, q) \<in> set qs \<Longrightarrow> linked e k q ent' \<Longrightarrow> distinct (queries ent') \<Longrightarrow>
             e_side k ent' (snd (body k q ent'))
             \<and> linked e k (fst (body k q ent')) (snd (body k q ent'))
             \<and> G (fst (body k q ent'))"
    using Cons.prems(1) by simp
  note IH = Cons.IH [OF step dk lk1 d1]
  have hd_fin: "linked e k ?q1 ?fin \<and> G ?q1"
    using head IH knot by (simp add: linked_def)
  have frame: "\<forall>k'. k' \<notin> fst ` set (kq # qs) \<longrightarrow>
                 (k' \<in> set (queries ?fin) \<longleftrightarrow> k' \<in> set (queries ent))"
    using IH frame1 kq by auto
  from IH hd_fin frame show ?case
    unfolding kq query_loop_Cons by simp
qed

lemma query_loop_link:
  assumes "\<And>k q ent'. (k, q) \<in> set qs \<Longrightarrow> linked e k q ent' \<Longrightarrow> distinct (queries ent') \<Longrightarrow>
             e_side k ent' (snd (body k q ent'))
             \<and> linked e k (fst (body k q ent')) (snd (body k q ent'))"
    and "distinct (map fst qs)"
    and "\<forall>kq \<in> set qs. linked e (fst kq) (snd kq) ent"
    and "distinct (queries ent)"
  shows "distinct (queries (snd (query_loop body qs ent)))
       \<and> (\<forall>k'. k' \<notin> fst ` set qs \<longrightarrow>
             (k' \<in> set (queries (snd (query_loop body qs ent))) \<longleftrightarrow> k' \<in> set (queries ent)))
       \<and> (\<forall>kq' \<in> set (fst (query_loop body qs ent)).
             linked e (fst kq') (snd kq') (snd (query_loop body qs ent)))"
  using query_loop_link_G [where G = "\<lambda>q. True", of qs e body ent] assms by simp

section \<open>Membership after a component was added or removed\<close>

lemma onEntityComponentAdded_body_match:
  assumes "distinct (q_entities q)"
    and "e \<in> set (q_entities q) \<longleftrightarrow> match q ent0"
    and "ComponentTypes ent = ComponentTypes ent0 @ [C]"
    and "C \<notin> set (ComponentTypes ent0)"
  shows "e \<in> set (q_entities (fst (onEntityComponentAdded_body e C k q ent))) \<longleftrightarrow> match q ent"
  unfolding onEntityComponentAdded_body_member [OF assms(1)]
  using assms(2-4) by (auto simp: match_iff)

lemma onEntityComponentRemoved_body_match:
  assumes "distinct (q_entities q)"
    and "e \<in> set (q_entities q) \<longleftrightarrow> match q ent0"
    and "set (ComponentTypes ent) = set (ComponentTypes ent0) - {C}"
    and "C \<in> set (ComponentTypes ent0)"
  shows "e \<in> set (q_entities (fst (onEntityComponentRemoved_body e C k q ent))) \<longleftrightarrow> match q ent"
  unfolding onEntityComponentRemoved_body_member [OF assms(1)]
  using assms(2-4) by (auto simp: match_iff)

lemma onEntityComponentRemoved_body_sound:
  assumes "distinct (q_entities q)"
    and "e \<in> set (q_entities q) \<longrightarrow> match q ent0"
    and "set (ComponentTypes ent) = set (ComponentTypes ent0) - {C}"
  shows "e \<in> set (q_entities (fst (onEntityComponentRemoved_body e C k q ent))) \<longrightarrow> match q ent"
  unfolding onEntityComponentRemoved_body_member [OF assms(1)]
  using assms(2-3) by (auto simp: match_iff)

section \<open>The callbacks of the QueryManager keep the index well-formed\<close>

lemma list_all2_set2: "list_all2 P xs ys \<Longrightarrow> y \<in> set ys \<Longrightarrow> \<exists>x \<in> set xs. P x y"
  by (induction rule: list_all2_induct) auto

lemma callback_loop_fields:
  "queries_map (callback_loop body e m) = fst (query_loop body (queries_map m) (heap m e))"
  "heap (callback_loop body e m) = (heap m)(e := snd (query_loop body (queries_map m) (heap m e)))"
  "entities (callback_loop body e m) = entities m"
  "componentsManager (callback_loop body e m) = componentsManager m"
  "nextId (callback_loop body e m) = nextId m"
  "allocated (callback_loop body e m) = allocated m"
  "entityPool (callback_loop body e m) = entityPool m"
  "entitiesToRemove (callback_loop body e m) = entitiesToRemove m"
  "entitiesWithComponentsToRemove (callback_loop body e m) = entitiesWithComponentsToRemove m"
  "em_eventDispatcher (callback_loop body e m) = em_eventDispatcher m"
  by (simp_all add: callback_loop_def case_prod_beta)

text \<open>
  A body is \<open>tame\<close> for \<open>e\<close> when each step changes only the membership of \<open>e\<close> in the
  query and the back-edges of the entity, and keeps the two linked.
\<close>

lemma callback_loop_rel:
  assumes "\<And>k q ent'. q_side e q (fst (body k q ent')) \<and> same_but_queries ent' (snd (body k q ent'))"
    and "\<And>k q ent'. (k, q) \<in> set (queries_map m) \<Longrightarrow>
            ComponentTypes ent' = ComponentTypes (heap m e) \<Longrightarrow> R k q (fst (body k q ent'))"
  shows "list_all2 (\<lambda>kq kq'. fst kq' = fst kq \<and> q_side e (snd kq) (snd kq')
                       \<and> R (fst kq) (snd kq) (snd kq'))
           (queries_map m) (queries_map (callback_loop body e m))"
    and "same_but_queries (heap m e) (heap (callback_loop body e m) e)"
proof -
  have "list_all2 (\<lambda>kq kq'. fst kq' = fst kq
                     \<and> (q_side e (snd kq) (snd kq') \<and> R (fst kq) (snd kq) (snd kq')))
           (queries_map m) (fst (query_loop body (queries_map m) (heap m e)))
       \<and> same_but_queries (heap m e) (snd (query_loop body (queries_map m) (heap m e)))"
  proof (rule query_loop_q)
    fix k q ent'
    assume mem: "(k, q) \<in> set (queries_map m)" and same: "same_but_queries (heap m e) ent'"
    from same have "ComponentTypes ent' = ComponentTypes (heap m e)"
      by (rule same_but_queries_fields)
    with mem assms show "(q_side e q (fst (body k q ent')) \<and> R k q (fst (body k q ent')))
              \<and> same_but_queries ent' (snd (body k q ent'))"
      by simp
  qed
  then show "list_all2 (\<lambda>kq kq'. fst kq' = fst kq \<and> q_side e (snd kq) (snd kq')
                       \<and> R (fst kq) (snd kq) (snd kq'))
           (queries_map m) (queries_map (callback_loop body e m))"
    and "same_but_queries (heap m e) (heap (callback_loop body e m) e)"
    by (simp_all add: callback_loop_fields)
qed

lemma callback_loop_pre:
  assumes "\<And>k q ent'. q_side e q (fst (body k q ent')) \<and> same_but_queries ent' (snd (body k q ent'))"
    and "kq' \<in> set (queries_map (callback_loop body e m))"
  shows "\<exists>kq \<in> set (queries_map m). fst kq' = fst kq \<and> q_side e (snd kq) (snd kq')"
proof -
  have "list_all2 (\<lambda>kq kq'. fst kq' = fst kq \<and> q_side e (snd kq) (snd kq') \<and> True)
           (queries_map m) (queries_map (callback_loop body e m))"
    by (rule callback_loop_rel(1) [OF assms(1)]) simp
  from list_all2_set2 [OF this assms(2)] show ?thesis by simp
qed

lemma callback_loop_wf:
  assumes "\<And>k q ent'. q_side e q (fst (body k q ent')) \<and> same_but_queries ent' (snd (body k q ent'))"
    and "wf_queries m"
  shows "wf_queries (callback_loop body e m)"
proof -
  have keys: "map fst (queries_map (callback_loop body e m)) = map fst (queries_map m)"
    by (simp add: callback_loop_fields query_loop_keys)
  have "\<forall>kq' \<in> set (queries_map (callback_loop body e m)).
          q_Components (snd kq') \<noteq> [] \<and> distinct (q_entities (snd kq'))"
  proof
    fix kq' assume "kq' \<in> set (queries_map (callback_loop body e m))"
    from callback_loop_pre [OF assms(1) this]
    obtain kq where kq: "kq \<in> set (queries_map m)" and qs: "q_side e (snd kq) (snd kq')"
      by blast
    from qs have "q_Components (snd kq') = q_Components (snd kq)"
      by (simp add: q_side_def same_but_entities_fields)
    with kq qs assms(2) show "q_Components (snd kq') \<noteq> [] \<and> distinct (q_entities (snd kq'))"
      by (simp add: wf_queries_def q_side_def)
  qed
  with keys assms(2) show ?thesis by (simp add: wf_queries_def)
qed

lemma callback_loop_other:
  assumes "\<And>k q ent'. q_side e q (fst (body k q ent')) \<and> same_but_queries ent' (snd (body k q ent'))"
    and "f \<noteq> e"
  shows "heap (callback_loop body e m) f = heap m f"
    and "ent_wf m f \<Longrightarrow> ent_wf (callback_loop body e m) f"
    and "ent_matched m f \<Longrightarrow> ent_matched (callback_loop body e m) f"
proof -
  show h: "heap (callback_loop body e m) f = heap m f"
    using assms(2) by (simp add: callback_loop_fields)
  {
    fix kq' assume "kq' \<in> set (queries_map (callback_loop body e m))"
    from callback_loop_pre [OF assms(1) this]
    obtain kq where kq: "kq \<in> set (queries_map m)" and k: "fst kq' = fst kq"
      and qs: "q_side e (snd kq) (snd kq')"
      by blast
    from qs have "q_Components (snd kq') = q_Components (snd kq)"
      and "q_NotComponents (snd kq') = q_NotComponents (snd kq)"
      by (simp_all add: q_side_def same_but_entities_fields)
    then have "match (snd kq') (heap m f) = match (snd kq) (heap m f)"
      by (simp add: match_iff)
    moreover from qs assms(2)
    have "f \<in> set (q_entities (snd kq')) \<longleftrightarrow> f \<in> set (q_entities (snd kq))"
      by (simp add: q_side_def)
    ultimately have "\<exists>kq \<in> set (queries_map m). fst kq' = fst kq
        \<and> match (snd kq') (heap m f) = match (snd kq) (heap m f)
        \<and> (f \<in> set (q_entities (snd kq')) \<longleftrightarrow> f \<in> set (q_entities (snd kq)))"
      using kq k by blast
  } note pre = this
  show "ent_wf m f \<Longrightarrow> ent_wf (callback_loop body e m) f"
    unfolding ent_wf_def h linked_def using pre by metis
  show "ent_matched m f \<Longrightarrow> ent_matched (callback_loop body e m) f"
    unfolding ent_matched_def h using pre by metis
qed

lemma callback_loop_self:
  assumes "\<And>k q ent'. q_side e q (fst (body k q ent')) \<and> same_but_queries ent' (snd (body k q ent'))"
    and "\<And>k q ent'. (k, q) \<in> set (queries_map m) \<Longrightarrow> linked e k q ent' \<Longrightarrow>
            distinct (queries ent') \<Longrightarrow>
            e_side k ent' (snd (body k q ent'))
            \<and> linked e k (fst (body k q ent')) (snd (body k q ent'))"
    and "wf_queries m" and "ent_wf m e"
  shows "ent_wf (callback_loop body e m) e"
proof -
  have "same_but_queries (heap m e) (heap (callback_loop body e m) e)"
    by (rule callback_loop_rel(2) [OF assms(1), where R = "\<lambda>k q q'. True"]) simp
  then have types: "ComponentTypes (heap (callback_loop body e m) e) = ComponentTypes (heap m e)"
    by (rule same_but_queries_fields)
  have "distinct (queries (snd (query_loop body (queries_map m) (heap m e))))
       \<and> (\<forall>k'. k' \<notin> fst ` set (queries_map m) \<longrightarrow>
             (k' \<in> set (queries (snd (query_loop body (queries_map m) (heap m e))))
                \<longleftrightarrow> k' \<in> set (queries (heap m e))))
       \<and> (\<forall>kq' \<in> set (fst (query_loop body (queries_map m) (heap m e))).
             linked e (fst kq') (snd kq') (snd (query_loop body (queries_map m) (heap m e))))"
    using assms(2-4)
    by (intro query_loop_link) (simp_all add: wf_queries_def ent_wf_def)
  with types assms(4) show ?thesis
    by (simp add: ent_wf_def callback_loop_fields)
qed

lemma callback_loop_matched:
  assumes "\<And>k q ent'. q_side e q (fst (body k q ent')) \<and> same_but_queries ent' (snd (body k q ent'))"
    and "\<And>k q ent'. (k, q) \<in> set (queries_map m) \<Longrightarrow>
            ComponentTypes ent' = ComponentTypes (heap m e) \<Longrightarrow>
            (e \<in> set (q_entities (fst (body k q ent'))) \<longleftrightarrow> match q (heap m e))"
  shows "ent_matched (callback_loop body e m) e"
proof -
  let ?m' = "callback_loop body e m"
  have rel: "list_all2 (\<lambda>kq kq'. fst kq' = fst kq \<and> q_side e (snd kq) (snd kq')
                       \<and> (e \<in> set (q_entities (snd kq')) \<longleftrightarrow> match (snd kq) (heap m e)))
           (queries_map m) (queries_map ?m')"
    by (rule callback_loop_rel(1) [OF assms(1)]) (use assms(2) in simp)
  have "same_but_queries (heap m e) (heap ?m' e)"
    by (rule callback_loop_rel(2) [OF assms(1), where R = "\<lambda>k q q'. True"]) simp
  then have types: "ComponentTypes (heap ?m' e) = ComponentTypes (heap m e)"
    by (rule same_but_queries_fields)
  show ?thesis
    unfolding ent_matched_def
  proof
    fix kq' assume "kq' \<in> set (queries_map ?m')"
    from list_all2_set2 [OF rel this]
    obtain kq where qs: "q_side e (snd kq) (snd kq')"
      and mt: "e \<in> set (q_entities (snd kq')) \<longleftrightarrow> match (snd kq) (heap m e)"
      by auto
    from qs have "q_Components (snd kq') = q_Components (snd kq)"
      and "q_NotComponents (snd kq') = q_NotComponents (snd kq)"
      by (simp_all add: q_side_def same_but_entities_fields)
    with types have "match (snd kq') (heap ?m' e) = match (snd kq) (heap m e)"
      by (simp add: match_iff)
    with mt show "e \<in> set (q_entities (snd kq')) \<longleftrightarrow> match (snd kq') (heap ?m' e)" by simp
  qed
qed

section \<open>Adding and removing a component keeps the index consistent\<close>

lemma retyped_wf: "retyped m m1 e ts \<Longrightarrow> wf_queries m1 = wf_queries m"
  by (simp add: retyped_def wf_queries_def)

lemma retyped_other:
  assumes "retyped m m1 e ts" and "f \<noteq> e"
  shows "ent_wf m1 f = ent_wf m f" and "ent_matched m1 f = ent_matched m f"
  using assms by (simp_all add: retyped_def ent_wf_def ent_matched_def)

lemma retyped_self:
  assumes "retyped m m1 e ts" and "distinct ts" and "ent_wf m e"
  shows "ent_wf m1 e"
  using assms by (simp add: retyped_def ent_wf_def linked_def)

lemma added_bodies:
  "q_side e q (fst (onEntityComponentAdded_body e C k q ent'))
   \<and> same_but_queries ent' (snd (onEntityComponentAdded_body e C k q ent'))"
  by (simp add: onEntityComponentAdded_body_q onEntityComponentAdded_body_same)

lemma removed_bodies:
  "q_side e q (fst (onEntityComponentRemoved_body e C k q ent'))
   \<and> same_but_queries ent' (snd (onEntityComponentRemoved_body e C k q ent'))"
  by (simp add: onEntityComponentRemoved_body_q onEntityComponentRemoved_body_same)

lemma entity_removed_bodies:
  "q_side e q (fst (onEntityRemoved_body e k q ent'))
   \<and> same_but_queries ent' (snd (onEntityRemoved_body e k q ent'))"
  by (simp add: onEntityRemoved_body_q onEntityRemoved_body_same)

text \<open>The callbacks leave everything but the queries and the entity's back-edges alone.\<close>

lemma onEntityComponentAdded_frame:
  "entities (onEntityComponentAdded e C m) = entities m"
  "componentsManager (onEntityComponentAdded e C m) = componentsManager m"
  "nextId (onEntityComponentAdded e C m) = nextId m"
  "entityPool (onEntityComponentAdded e C m) = entityPool m"
  "entitiesToRemove (onEntityComponentAdded e C m) = entitiesToRemove m"
  "entitiesWithComponentsToRemove (onEntityComponentAdded e C m) = entitiesWithComponentsToRemove m"
  "f \<noteq> e \<Longrightarrow> heap (onEntityComponentAdded e C m) f = heap m f"
  unfolding onEntityComponentAdded_def
  by (simp_all add: callback_loop_fields)

lemma onEntityComponentAdded_same: "same_but_queries (heap m e) (heap (onEntityComponentAdded e C m) e)"
  unfolding onEntityComponentAdded_def
  by (rule callback_loop_rel(2) [OF added_bodies, where R = "\<lambda>k q q'. True"]) simp

lemma onEntityComponentRemoved_frame:
  "entities (onEntityComponentRemoved e C m) = entities m"
  "componentsManager (onEntityComponentRemoved e C m) = componentsManager m"
  "nextId (onEntityComponentRemoved e C m) = nextId m"
  "entityPool (onEntityComponentRemoved e C m) = entityPool m"
  "entitiesToRemove (onEntityComponentRemoved e C m) = entitiesToRemove m"
  "entitiesWithComponentsToRemove (onEntityComponentRemoved e C m) = entitiesWithComponentsToRemove m"
  "f \<noteq> e \<Longrightarrow> heap (onEntityComponentRemoved e C m) f = heap m f"
  unfolding onEntityComponentRemoved_def
  by (simp_all add: callback_loop_fields)

lemma onEntityComponentRemoved_same: "same_but_queries (heap m e) (heap (onEntityComponentRemoved e C m) e)"
  unfolding onEntityComponentRemoved_def
  by (rule callback_loop_rel(2) [OF removed_bodies, where R = "\<lambda>k q q'. True"]) simp

lemma onEntityRemoved_frame:
  "entities (onEntityRemoved e m) = entities m"
  "componentsManager (onEntityRemoved e m) = componentsManager m"
  "nextId (onEntityRemoved e m) = nextId m"
  "entityPool (onEntityRemoved e m) = entityPool m"
  "entitiesToRemove (onEntityRemoved e m) = entitiesToRemove m"
  "entitiesWithComponentsToRemove (onEntityRemoved e m) = entitiesWithComponentsToRemove m"
  "f \<noteq> e \<Longrightarrow> heap (onEntityRemoved e m) f = heap m f"
  unfolding onEntityRemoved_def
  by (simp_all add: callback_loop_fields)

lemma onEntityRemoved_same: "same_but_queries (heap m e) (heap (onEntityRemoved e m) e)"
  unfolding onEntityRemoved_def
  by (rule callback_loop_rel(2) [OF entity_removed_bodies, where R = "\<lambda>k q q'. True"]) simp

text \<open>After the types of \<open>e\<close> grew by \<open>C\<close>, the callback restores the membership of \<open>e\<close>.\<close>

lemma onEntityComponentAdded_consistent:
  assumes rt: "retyped m m1 e (ComponentTypes (heap m e) @ [C])"
    and new: "C \<notin> set (ComponentTypes (heap m e))"
    and wf: "wf_queries m"
  shows "wf_queries (onEntityComponentAdded e C m1)"
    and "ent_wf m f \<Longrightarrow> ent_wf (onEntityComponentAdded e C m1) f"
    and "ent_matched m f \<Longrightarrow> ent_matched (onEntityComponentAdded e C m1) f"
proof -
  have wf1: "wf_queries m1" using rt wf by (simp add: retyped_wf)
  show "wf_queries (onEntityComponentAdded e C m1)"
    unfolding onEntityComponentAdded_def using added_bodies wf1 by (rule callback_loop_wf)
  show "ent_wf (onEntityComponentAdded e C m1) f" if w: "ent_wf m f"
  proof (cases "f = e")
    case True
    have d: "distinct (ComponentTypes (heap m e) @ [C])"
      using w True new by (simp add: ent_wf_def)
    have "ent_wf m1 e" using rt d w True by (simp add: retyped_self)
    then show ?thesis
      unfolding onEntityComponentAdded_def True
      using wf1
      by (intro callback_loop_self added_bodies onEntityComponentAdded_body_link)
         (auto simp: wf_queries_def)
  next
    case False
    with rt w have "ent_wf m1 f" by (simp add: retyped_other)
    with False show ?thesis
      unfolding onEntityComponentAdded_def by (simp add: callback_loop_other(2) [OF added_bodies])
  qed
  show "ent_matched (onEntityComponentAdded e C m1) f" if w: "ent_matched m f"
  proof (cases "f = e")
    case True
    show ?thesis
      unfolding onEntityComponentAdded_def True
    proof (rule callback_loop_matched [OF added_bodies])
      fix k q and ent' :: entity
      assume mem: "(k, q) \<in> set (queries_map m1)"
        and ty: "ComponentTypes ent' = ComponentTypes (heap m1 e)"
      from mem rt have mem0: "(k, q) \<in> set (queries_map m)" by (simp add: retyped_def)
      with wf have d: "distinct (q_entities q)" by (auto simp: wf_queries_def)
      from w True mem0 have pre: "e \<in> set (q_entities q) \<longleftrightarrow> match q (heap m e)"
        by (auto simp: ent_matched_def)
      from ty rt have ty': "ComponentTypes ent' = ComponentTypes (heap m e) @ [C]"
        by (simp add: retyped_def)
      have "e \<in> set (q_entities (fst (onEntityComponentAdded_body e C k q ent'))) \<longleftrightarrow> match q ent'"
        using d pre ty' new by (rule onEntityComponentAdded_body_match)
      moreover have "match q ent' = match q (heap m1 e)" using ty by (simp add: match_iff)
      ultimately show "e \<in> set (q_entities (fst (onEntityComponentAdded_body e C k q ent')))
                         \<longleftrightarrow> match q (heap m1 e)" by simp
    qed
  next
    case False
    with rt w have "ent_matched m1 f" by (simp add: retyped_other)
    with False show ?thesis
      unfolding onEntityComponentAdded_def by (simp add: callback_loop_other(3) [OF added_bodies])
  qed
qed

text \<open>After \<open>C\<close> left the types of \<open>e\<close>, the callback restores the membership of \<open>e\<close>.\<close>

lemma onEntityComponentRemoved_consistent:
  assumes rt: "retyped m m1 e (remove1 C (ComponentTypes (heap m e)))"
    and old: "C \<in> set (ComponentTypes (heap m e))"
    and wf: "wf_queries m"
  shows "wf_queries (onEntityComponentRemoved e C m1)"
    and "ent_wf m f \<Longrightarrow> ent_wf (onEntityComponentRemoved e C m1) f"
    and "ent_matched m f \<Longrightarrow> distinct (ComponentTypes (heap m f)) \<Longrightarrow>
           ent_matched (onEntityComponentRemoved e C m1) f"
proof -
  have wf1: "wf_queries m1" using rt wf by (simp add: retyped_wf)
  show "wf_queries (onEntityComponentRemoved e C m1)"
    unfolding onEntityComponentRemoved_def using removed_bodies wf1 by (rule callback_loop_wf)
  show "ent_wf (onEntityComponentRemoved e C m1) f" if w: "ent_wf m f"
  proof (cases "f = e")
    case True
    have d: "distinct (remove1 C (ComponentTypes (heap m e)))"
      using w True by (simp add: ent_wf_def)
    have "ent_wf m1 e" using rt d w True by (simp add: retyped_self)
    then show ?thesis
      unfolding onEntityComponentRemoved_def True
      using wf1
      by (intro callback_loop_self removed_bodies onEntityComponentRemoved_body_link)
         (auto simp: wf_queries_def)
  next
    case False
    with rt w have "ent_wf m1 f" by (simp add: retyped_other)
    with False show ?thesis
      unfolding onEntityComponentRemoved_def
      by (simp add: callback_loop_other(2) [OF removed_bodies])
  qed
  show "ent_matched (onEntityComponentRemoved e C m1) f"
    if w: "ent_matched m f" and dt: "distinct (ComponentTypes (heap m f))"
  proof (cases "f = e")
    case True
    show ?thesis
      unfolding onEntityComponentRemoved_def True
    proof (rule callback_loop_matched [OF removed_bodies])
      fix k q and ent' :: entity
      assume mem: "(k, q) \<in> set (queries_map m1)"
        and ty: "ComponentTypes ent' = ComponentTypes (heap m1 e)"
      from mem rt have mem0: "(k, q) \<in> set (queries_map m)" by (simp add: retyped_def)
      with wf have d: "distinct (q_entities q)" by (auto simp: wf_queries_def)
      from w True mem0 have pre: "e \<in> set (q_entities q) \<longleftrightarrow> match q (heap m e)"
        by (auto simp: ent_matched_def)
      from ty rt dt True
      have ty': "set (ComponentTypes ent') = set (ComponentTypes (heap m e)) - {C}"
        by (simp add: retyped_def)
      have "e \<in> set (q_entities (fst (onEntityComponentRemoved_body e C k q ent'))) \<longleftrightarrow> match q ent'"
        using d pre ty' old by (rule onEntityComponentRemoved_body_match)
      moreover have "match q ent' = match q (heap m1 e)" using ty by (simp add: match_iff)
      ultimately show "e \<in> set (q_entities (fst (onEntityComponentRemoved_body e C k q ent')))
                         \<longleftrightarrow> match q (heap m1 e)" by simp
    qed
  next
    case False
    with rt w have "ent_matched m1 f" by (simp add: retyped_other)
    with False show ?thesis
      unfolding onEntityComponentRemoved_def
      by (simp add: callback_loop_other(3) [OF removed_bodies])
  qed
qed

section \<open>entityAddComponent and entityRemoveComponent\<close>

lemma index_cong:
  assumes "queries_map m' = queries_map m" and "heap m' = heap m" and "entities m' = entities m"
  shows "wf_queries m' = wf_queries m" and "ent_wf m' f = ent_wf m f"
    and "ent_matched m' f = ent_matched m f"
    and "query_membership m' = query_membership m" and "consistent m' = consistent m"
  using assms
  by (simp_all add: wf_queries_def ent_wf_def ent_matched_def query_membership_def consistent_def)

lemma em_dispatch_fields:
  "queries_map (em_dispatch n e c m) = queries_map m"
  "heap (em_dispatch n e c m) = heap m"
  "entities (em_dispatch n e c m) = entities m"
  "componentsManager (em_dispatch n e c m) = componentsManager m"
  "nextId (em_dispatch n e c m) = nextId m"
  "allocated (em_dispatch n e c m) = allocated m"
  "entityPool (em_dispatch n e c m) = entityPool m"
  "entitiesToRemove (em_dispatch n e c m) = entitiesToRemove m"
  "entitiesWithComponentsToRemove (em_dispatch n e c m) = entitiesWithComponentsToRemove m"
  by (simp_all add: em_dispatch_def)

lemma entityAddComponent_old:
  "C \<in> set (ComponentTypes (heap m e)) \<Longrightarrow> entityAddComponent e C m = m"
  by (simp add: entityAddComponent_def indexOf_absent)

lemma entityAddComponent_new:
  assumes "C \<notin> set (ComponentTypes (heap m e))"
  shows "\<exists>m1 cm. retyped m m1 e (ComponentTypes (heap m e) @ [C])
           \<and> ComponentTypesToRemove (heap m1 e) = ComponentTypesToRemove (heap m e)
           \<and> componentsToRemove (heap m1 e) = componentsToRemove (heap m e)
           \<and> entityAddComponent e C m =
                em_dispatch COMPONENT_ADDED e (Some C)
                  ((onEntityComponentAdded e C m1)\<lparr>componentsManager := cm\<rparr>)"
proof -
  define gp where "gp = getComponentsPool C (componentsManager m)"
  define aq where "aq = pool_aquire (fst (snd gp)) (instances (snd (snd gp)))"
  define cm2 where "cm2 = (snd (snd gp))\<lparr>componentPool :=
      (componentPool (snd (snd gp)))(fst gp \<mapsto> fst (snd aq)), instances := snd (snd aq)\<rparr>"
  define m1 where "m1 = m\<lparr>heap := (heap m)(e := (heap m e)
      \<lparr>ComponentTypes := ComponentTypes (heap m e) @ [C],
       components := (components (heap m e))(cname C := fst aq)\<rparr>),
      componentsManager := cm2\<rparr>"
  have rt: "retyped m m1 e (ComponentTypes (heap m e) @ [C])"
    by (simp add: retyped_def m1_def)
  have eq: "entityAddComponent e C m =
                em_dispatch COMPONENT_ADDED e (Some C)
                  ((onEntityComponentAdded e C m1)\<lparr>componentsManager :=
                     componentAddedToEntity C (componentsManager (onEntityComponentAdded e C m1))\<rparr>)"
    using assms
    by (simp add: entityAddComponent_def indexOf_absent Let_def case_prod_beta
          m1_def cm2_def aq_def gp_def)
  have "ComponentTypesToRemove (heap m1 e) = ComponentTypesToRemove (heap m e)"
    and "componentsToRemove (heap m1 e) = componentsToRemove (heap m e)"
    by (simp_all add: m1_def)
  with rt eq show ?thesis by blast
qed

lemma entityAddComponent_entities: "entities (entityAddComponent e C m) = entities m"
proof (cases "C \<in> set (ComponentTypes (heap m e))")
  case True
  then show ?thesis by (simp add: entityAddComponent_old)
next
  case False
  from entityAddComponent_new [OF False] obtain m1 cm where
    rt: "retyped m m1 e (ComponentTypes (heap m e) @ [C])"
    and eq: "entityAddComponent e C m =
                em_dispatch COMPONENT_ADDED e (Some C)
                  ((onEntityComponentAdded e C m1)\<lparr>componentsManager := cm\<rparr>)"
    by blast
  show ?thesis
    unfolding eq using rt by (simp add: em_dispatch_fields onEntityComponentAdded_frame retyped_def)
qed

lemma entityAddComponent_preserves:
  assumes wf: "wf_queries m"
  shows "wf_queries (entityAddComponent e C m)"
    and "ent_wf m f \<Longrightarrow> ent_wf (entityAddComponent e C m) f"
    and "ent_matched m f \<Longrightarrow> ent_matched (entityAddComponent e C m) f"
proof -
  have "wf_queries (entityAddComponent e C m)
      \<and> (ent_wf m f \<longrightarrow> ent_wf (entityAddComponent e C m) f)
      \<and> (ent_matched m f \<longrightarrow> ent_matched (entityAddComponent e C m) f)"
  proof (cases "C \<in> set (ComponentTypes (heap m e))")
    case True
    with wf show ?thesis by (simp add: entityAddComponent_old)
  next
    case False
    from entityAddComponent_new [OF False] obtain m1 cm where
      rt: "retyped m m1 e (ComponentTypes (heap m e) @ [C])"
      and eq: "entityAddComponent e C m =
                em_dispatch COMPONENT_ADDED e (Some C)
                  ((onEntityComponentAdded e C m1)\<lparr>componentsManager := cm\<rparr>)"
      by blast
    let ?m2 = "onEntityComponentAdded e C m1"
    have c: "wf_queries (entityAddComponent e C m) = wf_queries ?m2"
      "ent_wf (entityAddComponent e C m) f = ent_wf ?m2 f"
      "ent_matched (entityAddComponent e C m) f = ent_matched ?m2 f"
      unfolding eq by (rule index_cong; simp add: em_dispatch_fields)+
    show ?thesis
      unfolding c
      using onEntityComponentAdded_consistent(1) [OF rt False wf]
        onEntityComponentAdded_consistent(2) [OF rt False wf, of f]
        onEntityComponentAdded_consistent(3) [OF rt False wf, of f]
      by simp
  qed
  then show "wf_queries (entityAddComponent e C m)"
    and "ent_wf m f \<Longrightarrow> ent_wf (entityAddComponent e C m) f"
    and "ent_matched m f \<Longrightarrow> ent_matched (entityAddComponent e C m) f"
    by simp_all
qed

lemma entityAddComponent_consistent:
  "consistent m \<Longrightarrow> consistent (entityAddComponent e C m)"
  unfolding consistent_def query_membership_def entityAddComponent_entities
  using entityAddComponent_preserves by blast

subsection \<open>Removal\<close>

lemma entityRemoveComponent_absent:
  "C \<notin> set (ComponentTypes (heap m e)) \<Longrightarrow> entityRemoveComponent e C forceRemove m = Inr m"
  by (simp add: entityRemoveComponent_def indexOf_absent)

lemma entityRemoveComponent_deferred:
  assumes "C \<in> set (ComponentTypes (heap m e))"
  shows "entityRemoveComponent e C False m = Inr (onEntityComponentRemoved e C (staged e C m))"
  using assms
  by (simp add: entityRemoveComponent_def indexOf_absent Let_def staged_def getName_def
        splice1_indexOf em_dispatch_fields)

lemma staged_retyped: "retyped m (staged e C m) e (remove1 C (ComponentTypes (heap m e)))"
  by (simp add: staged_def Let_def retyped_def em_dispatch_fields)

lemma entityRemoveComponentSync_retyped:
  assumes "entityRemoveComponentSync e C (indexOf (ComponentTypes (heap m e)) C) m = Inr m1"
    and "C \<in> set (ComponentTypes (heap m e))"
  shows "retyped m m1 e (remove1 C (ComponentTypes (heap m e)))"
    and "ComponentTypesToRemove (heap m1 e) = ComponentTypesToRemove (heap m e)"
    and "componentsToRemove (heap m1 e) = componentsToRemove (heap m e)"
    and "entitiesWithComponentsToRemove m1 = entitiesWithComponentsToRemove m"
    and "entitiesToRemove m1 = entitiesToRemove m"
    and "nextId m1 = nextId m" and "entityPool m1 = entityPool m"
  using assms
  by (auto simp: entityRemoveComponentSync_def Let_def retyped_def splice1_indexOf
           split: sum.splits)

lemma entityRemoveComponent_forced:
  assumes "C \<in> set (ComponentTypes (heap m e))"
    and "entityRemoveComponent e C True m = Inr m'"
  shows "\<exists>m1. entityRemoveComponentSync e C (indexOf (ComponentTypes (heap m e)) C)
                  (em_dispatch COMPONENT_REMOVE e (Some C) m) = Inr m1
            \<and> m' = onEntityComponentRemoved e C m1"
  using assms
  by (auto simp: entityRemoveComponent_def indexOf_absent Let_def split: sum.splits)

lemma entityRemoveComponent_present:
  assumes "C \<in> set (ComponentTypes (heap m e))"
    and "entityRemoveComponent e C forceRemove m = Inr m'"
  shows "\<exists>m1. retyped m m1 e (remove1 C (ComponentTypes (heap m e)))
            \<and> m' = onEntityComponentRemoved e C m1"
proof (cases forceRemove)
  case True
  with assms(2) have "entityRemoveComponent e C True m = Inr m'" by simp
  from entityRemoveComponent_forced [OF assms(1) this] obtain m1 where
    s: "entityRemoveComponentSync e C (indexOf (ComponentTypes (heap m e)) C)
                  (em_dispatch COMPONENT_REMOVE e (Some C) m) = Inr m1"
    and m': "m' = onEntityComponentRemoved e C m1"
    by blast
  have "retyped (em_dispatch COMPONENT_REMOVE e (Some C) m) m1 e
          (remove1 C (ComponentTypes (heap (em_dispatch COMPONENT_REMOVE e (Some C) m) e)))"
    by (rule entityRemoveComponentSync_retyped(1)) (use s assms(1) in \<open>simp_all add: em_dispatch_fields\<close>)
  then have "retyped m m1 e (remove1 C (ComponentTypes (heap m e)))"
    by (simp add: retyped_def em_dispatch_fields)
  with m' show ?thesis by blast
next
  case False
  with entityRemoveComponent_deferred [OF assms(1)] assms(2) staged_retyped [of m e C]
  show ?thesis by auto
qed

lemma entityRemoveComponent_entities:
  "entityRemoveComponent e C forceRemove m = Inr m' \<Longrightarrow> entities m' = entities m"
proof (cases "C \<in> set (ComponentTypes (heap m e))")
  case True
  assume "entityRemoveComponent e C forceRemove m = Inr m'"
  from entityRemoveComponent_present [OF True this] show ?thesis
    by (auto simp: onEntityComponentRemoved_frame retyped_def)
next
  case False
  assume "entityRemoveComponent e C forceRemove m = Inr m'"
  with False show ?thesis by (simp add: entityRemoveComponent_absent)
qed

lemma entityRemoveComponent_preserves:
  assumes wf: "wf_queries m" and r: "entityRemoveComponent e C forceRemove m = Inr m'"
  shows "wf_queries m'"
    and "ent_wf m f \<Longrightarrow> ent_wf m' f"
    and "ent_matched m f \<Longrightarrow> distinct (ComponentTypes (heap m f)) \<Longrightarrow> ent_matched m' f"
proof -
  have "wf_queries m' \<and> (ent_wf m f \<longrightarrow> ent_wf m' f)
      \<and> (ent_matched m f \<and> distinct (ComponentTypes (heap m f)) \<longrightarrow> ent_matched m' f)"
  proof (cases "C \<in> set (ComponentTypes (heap m e))")
    case True
    from entityRemoveComponent_present [OF True r] obtain m1 where
      rt: "retyped m m1 e (remove1 C (ComponentTypes (heap m e)))"
      and m': "m' = onEntityComponentRemoved e C m1"
      by blast
    show ?thesis
      unfolding m'
      using onEntityComponentRemoved_consistent(1) [OF rt True wf]
        onEntityComponentRemoved_consistent(2) [OF rt True wf, of f]
        onEntityComponentRemoved_consistent(3) [OF rt True wf, of f]
      by simp
  next
    case False
    with r wf show ?thesis by (simp add: entityRemoveComponent_absent)
  qed
  then show "wf_queries m'"
    and "ent_wf m f \<Longrightarrow> ent_wf m' f"
    and "ent_matched m f \<Longrightarrow> distinct (ComponentTypes (heap m f)) \<Longrightarrow> ent_matched m' f"
    by simp_all
qed

lemma entityRemoveComponent_consistent:
  assumes "consistent m" and "entityRemoveComponent e C forceRemove m = Inr m'"
  shows "consistent m'"
proof -
  from assms(1) have wf: "wf_queries m" by (simp add: consistent_def)
  have ent: "entities m' = entities m" using assms(2) by (rule entityRemoveComponent_entities)
  show ?thesis
    unfolding consistent_def query_membership_def ent
    using assms(1) entityRemoveComponent_preserves [OF wf assms(2)]
    by (auto simp: consistent_def query_membership_def ent_wf_def)
qed

section \<open>removeEntity keeps the index consistent\<close>

lemma gone_sound: "gone m e \<Longrightarrow> ent_sound m e"
  by (simp add: gone_def ent_sound_def)

lemma matched_sound: "ent_matched m e \<Longrightarrow> ent_sound m e"
  by (simp add: ent_matched_def ent_sound_def)

lemma sound_empty_gone:
  assumes "wf_queries m" and "ent_sound m e" and "ComponentTypes (heap m e) = []"
  shows "gone m e" and "ent_matched m e"
proof -
  have nomatch: "\<And>kq. kq \<in> set (queries_map m) \<Longrightarrow> \<not> match (snd kq) (heap m e)"
    using assms(1,3) by (auto simp: wf_queries_def match_iff)
  with assms(2) show "gone m e" by (auto simp: gone_def ent_sound_def)
  with nomatch show "ent_matched m e" by (auto simp: gone_def ent_matched_def)
qed

lemma onEntityRemoved_gone:
  assumes "wf_queries m" and "ent_wf m e"
  shows "gone (onEntityRemoved e m) e"
proof -
  have "distinct (queries (snd (query_loop (onEntityRemoved_body e) (queries_map m) (heap m e))))
       \<and> (\<forall>k'. k' \<notin> fst ` set (queries_map m) \<longrightarrow>
             (k' \<in> set (queries (snd (query_loop (onEntityRemoved_body e) (queries_map m) (heap m e))))
                \<longleftrightarrow> k' \<in> set (queries (heap m e))))
       \<and> (\<forall>kq' \<in> set (fst (query_loop (onEntityRemoved_body e) (queries_map m) (heap m e))).
             linked e (fst kq') (snd kq')
               (snd (query_loop (onEntityRemoved_body e) (queries_map m) (heap m e)))
             \<and> e \<notin> set (q_entities (snd kq')))"
  proof (rule query_loop_link_G)
    fix k q and ent' :: entity
    assume mem: "(k, q) \<in> set (queries_map m)" and lk: "linked e k q ent'"
      and d: "distinct (queries ent')"
    from mem assms(1) have dq: "distinct (q_entities q)" by (auto simp: wf_queries_def)
    from onEntityRemoved_body_link [OF lk d dq] onEntityRemoved_body_gone [OF lk dq]
    show "e_side k ent' (snd (onEntityRemoved_body e k q ent'))
          \<and> linked e k (fst (onEntityRemoved_body e k q ent')) (snd (onEntityRemoved_body e k q ent'))
          \<and> e \<notin> set (q_entities (fst (onEntityRemoved_body e k q ent')))"
      by simp
  next
    show "distinct (map fst (queries_map m))" using assms(1) by (simp add: wf_queries_def)
    show "\<forall>kq \<in> set (queries_map m). linked e (fst kq) (snd kq) (heap m e)"
      using assms(2) by (simp add: ent_wf_def)
    show "distinct (queries (heap m e))" using assms(2) by (simp add: ent_wf_def)
  qed
  then show ?thesis
    by (simp add: gone_def onEntityRemoved_def callback_loop_fields)
qed

lemma onEntityRemoved_preserves:
  assumes wf: "wf_queries m"
  shows "wf_queries (onEntityRemoved e m)"
    and "ent_wf m f \<Longrightarrow> ent_wf (onEntityRemoved e m) f"
    and "f \<noteq> e \<Longrightarrow> ent_matched m f \<Longrightarrow> ent_matched (onEntityRemoved e m) f"
proof -
  show "wf_queries (onEntityRemoved e m)"
    unfolding onEntityRemoved_def using entity_removed_bodies wf by (rule callback_loop_wf)
  show "ent_wf (onEntityRemoved e m) f" if w: "ent_wf m f"
  proof (cases "f = e")
    case True
    show ?thesis
      unfolding onEntityRemoved_def True
      using wf w True
      by (intro callback_loop_self entity_removed_bodies onEntityRemoved_body_link)
         (auto simp: wf_queries_def)
  next
    case False
    with w show ?thesis
      unfolding onEntityRemoved_def
      by (simp add: callback_loop_other(2) [OF entity_removed_bodies])
  qed
  show "f \<noteq> e \<Longrightarrow> ent_matched m f \<Longrightarrow> ent_matched (onEntityRemoved e m) f"
    unfolding onEntityRemoved_def
    by (simp add: callback_loop_other(3) [OF entity_removed_bodies])
qed

lemma callback_loop_sound:
  assumes "\<And>k q ent'. q_side e q (fst (body k q ent')) \<and> same_but_queries ent' (snd (body k q ent'))"
    and "\<And>k q ent'. (k, q) \<in> set (queries_map m) \<Longrightarrow>
            ComponentTypes ent' = ComponentTypes (heap m e) \<Longrightarrow>
            (e \<in> set (q_entities (fst (body k q ent'))) \<longrightarrow> match q (heap m e))"
  shows "ent_sound (callback_loop body e m) e"
proof -
  let ?m' = "callback_loop body e m"
  have rel: "list_all2 (\<lambda>kq kq'. fst kq' = fst kq \<and> q_side e (snd kq) (snd kq')
                       \<and> (e \<in> set (q_entities (snd kq')) \<longrightarrow> match (snd kq) (heap m e)))
           (queries_map m) (queries_map ?m')"
    by (rule callback_loop_rel(1) [OF assms(1)]) (use assms(2) in simp)
  have "same_but_queries (heap m e) (heap ?m' e)"
    by (rule callback_loop_rel(2) [OF assms(1), where R = "\<lambda>k q q'. True"]) simp
  then have types: "ComponentTypes (heap ?m' e) = ComponentTypes (heap m e)"
    by (rule same_but_queries_fields)
  show ?thesis
    unfolding ent_sound_def
  proof
    fix kq' assume "kq' \<in> set (queries_map ?m')"
    from list_all2_set2 [OF rel this]
    obtain kq where qs: "q_side e (snd kq) (snd kq')"
      and mt: "e \<in> set (q_entities (snd kq')) \<longrightarrow> match (snd kq) (heap m e)"
      by auto
    from qs have "q_Components (snd kq') = q_Components (snd kq)"
      and "q_NotComponents (snd kq') = q_NotComponents (snd kq)"
      by (simp_all add: q_side_def same_but_entities_fields)
    with types have "match (snd kq') (heap ?m' e) = match (snd kq) (heap m e)"
      by (simp add: match_iff)
    with mt show "e \<in> set (q_entities (snd kq')) \<longrightarrow> match (snd kq') (heap ?m' e)" by simp
  qed
qed

lemma entityRemoveComponent_types:
  assumes "entityRemoveComponent e C forceRemove m = Inr m'"
  shows "ComponentTypes (heap m' e) = remove1 C (ComponentTypes (heap m e))"
    and "f \<noteq> e \<Longrightarrow> heap m' f = heap m f"
proof -
  have "ComponentTypes (heap m' e) = remove1 C (ComponentTypes (heap m e))
      \<and> (f \<noteq> e \<longrightarrow> heap m' f = heap m f)"
  proof (cases "C \<in> set (ComponentTypes (heap m e))")
    case True
    from entityRemoveComponent_present [OF True assms] obtain m1 where
      rt: "retyped m m1 e (remove1 C (ComponentTypes (heap m e)))"
      and m': "m' = onEntityComponentRemoved e C m1"
      by blast
    have "ComponentTypes (heap m' e) = ComponentTypes (heap m1 e)"
      unfolding m' using onEntityComponentRemoved_same [of m1 e C]
      by (rule same_but_queries_fields)
    with rt show ?thesis
      by (simp add: m' retyped_def onEntityComponentRemoved_frame)
  next
    case False
    with assms show ?thesis by (simp add: entityRemoveComponent_absent remove1_idem)
  qed
  then show "ComponentTypes (heap m' e) = remove1 C (ComponentTypes (heap m e))"
    and "f \<noteq> e \<Longrightarrow> heap m' f = heap m f"
    by simp_all
qed

lemma entityRemoveComponent_sound:
  assumes wf: "wf_queries m" and s: "ent_sound m e"
    and d: "distinct (ComponentTypes (heap m e))"
    and r: "entityRemoveComponent e C forceRemove m = Inr m'"
  shows "ent_sound m' e"
proof (cases "C \<in> set (ComponentTypes (heap m e))")
  case True
  from entityRemoveComponent_present [OF True r] obtain m1 where
    rt: "retyped m m1 e (remove1 C (ComponentTypes (heap m e)))"
    and m': "m' = onEntityComponentRemoved e C m1"
    by blast
  show ?thesis
    unfolding m' onEntityComponentRemoved_def
  proof (rule callback_loop_sound [OF removed_bodies])
    fix k q and ent' :: entity
    assume mem: "(k, q) \<in> set (queries_map m1)"
      and ty: "ComponentTypes ent' = ComponentTypes (heap m1 e)"
    from mem rt have mem0: "(k, q) \<in> set (queries_map m)" by (simp add: retyped_def)
    with wf have dq: "distinct (q_entities q)" by (auto simp: wf_queries_def)
    from s mem0 have pre: "e \<in> set (q_entities q) \<longrightarrow> match q (heap m e)"
      by (auto simp: ent_sound_def)
    from ty rt d
    have ty': "set (ComponentTypes ent') = set (ComponentTypes (heap m e)) - {C}"
      by (simp add: retyped_def)
    have "e \<in> set (q_entities (fst (onEntityComponentRemoved_body e C k q ent'))) \<longrightarrow> match q ent'"
      using dq pre ty' by (rule onEntityComponentRemoved_body_sound)
    moreover have "match q ent' = match q (heap m1 e)" using ty by (simp add: match_iff)
    ultimately show "e \<in> set (q_entities (fst (onEntityComponentRemoved_body e C k q ent')))
                       \<longrightarrow> match q (heap m1 e)" by simp
  qed
next
  case False
  with r s show ?thesis by (simp add: entityRemoveComponent_absent)
qed

lemma remove1_last: "distinct xs \<Longrightarrow> xs \<noteq> [] \<Longrightarrow> remove1 (last xs) xs = butlast xs"
  by (induction xs) (auto simp: remove1_idem)

text \<open>
  The loop of \<open>entityRemoveAllComponents\<close> removes the last type at each turn, so it
  leaves the entity without types; the queries stay well-formed, and they list the entity
  only while it matches.
\<close>

lemma entityRemoveAll_loop_empties:
  assumes "entityRemoveAll_loop e forceRemove n m = Inr m'"
    and "n = length (ComponentTypes (heap m e))"
    and "wf_queries m" and "ent_wf m e" and "ent_sound m e"
  shows "wf_queries m' \<and> ent_wf m' e \<and> ent_sound m' e \<and> ComponentTypes (heap m' e) = []
       \<and> entities m' = entities m
       \<and> (\<forall>f. f \<noteq> e \<longrightarrow> heap m' f = heap m f
                \<and> (ent_wf m f \<longrightarrow> ent_wf m' f)
                \<and> (ent_wf m f \<and> ent_matched m f \<longrightarrow> ent_matched m' f))"
  using assms
proof (induction n arbitrary: m)
  case 0
  then show ?case by simp
next
  case (Suc j)
  let ?ts = "ComponentTypes (heap m e)"
  from Suc.prems(2) have len: "length ?ts = Suc j" by simp
  then have ne: "?ts \<noteq> []" by auto
  have d: "distinct ?ts" using Suc.prems(4) by (simp add: ent_wf_def)
  have nth: "?ts ! j = last ?ts" using len ne by (simp add: last_conv_nth)
  from Suc.prems(1) len obtain m1 where
    r: "entityRemoveComponent e (last ?ts) forceRemove m = Inr m1"
    and rest: "entityRemoveAll_loop e forceRemove j m1 = Inr m'"
    by (auto simp: nth split: sum.splits)
  have ty1: "ComponentTypes (heap m1 e) = butlast ?ts"
    using entityRemoveComponent_types(1) [OF r] d ne by (simp add: remove1_last)
  then have len1: "j = length (ComponentTypes (heap m1 e))" using len by simp
  have wf1: "wf_queries m1" using entityRemoveComponent_preserves(1) [OF Suc.prems(3) r] .
  have ew1: "ent_wf m1 e" using entityRemoveComponent_preserves(2) [OF Suc.prems(3) r Suc.prems(4)] .
  have es1: "ent_sound m1 e"
    using Suc.prems(3) Suc.prems(5) d r by (rule entityRemoveComponent_sound)
  have ents1: "entities m1 = entities m" using r by (rule entityRemoveComponent_entities)
  note IH = Suc.IH [OF rest len1 wf1 ew1 es1]
  have other: "\<forall>f. f \<noteq> e \<longrightarrow> heap m' f = heap m f
                \<and> (ent_wf m f \<longrightarrow> ent_wf m' f)
                \<and> (ent_wf m f \<and> ent_matched m f \<longrightarrow> ent_matched m' f)"
  proof (intro allI impI)
    fix f assume fe: "f \<noteq> e"
    have h1: "heap m1 f = heap m f" using entityRemoveComponent_types(2) [OF r fe] .
    have w1: "ent_wf m f \<Longrightarrow> ent_wf m1 f"
      using entityRemoveComponent_preserves(2) [OF Suc.prems(3) r] .
    have m1: "ent_wf m f \<Longrightarrow> ent_matched m f \<Longrightarrow> ent_matched m1 f"
      using entityRemoveComponent_preserves(3) [OF Suc.prems(3) r, of f]
      by (simp add: ent_wf_def)
    from IH fe h1 w1 m1
    show "heap m' f = heap m f \<and> (ent_wf m f \<longrightarrow> ent_wf m' f)
          \<and> (ent_wf m f \<and> ent_matched m f \<longrightarrow> ent_matched m' f)"
      by auto
  qed
  from IH ents1 other show ?case by simp
qed

section \<open>removeEntity\<close>

lemma entityRemoveAllComponents_empties:
  assumes "entityRemoveAllComponents e forceRemove m = Inr m'"
    and "wf_queries m" and "ent_wf m e" and "ent_sound m e"
  shows "wf_queries m'" and "ent_wf m' e" and "gone m' e" and "ent_matched m' e"
    and "ComponentTypes (heap m' e) = []" and "entities m' = entities m"
    and "f \<noteq> e \<Longrightarrow> heap m' f = heap m f"
    and "f \<noteq> e \<Longrightarrow> ent_wf m f \<Longrightarrow> ent_wf m' f"
    and "f \<noteq> e \<Longrightarrow> ent_wf m f \<Longrightarrow> ent_matched m f \<Longrightarrow> ent_matched m' f"
proof -
  from assms(1) have l: "entityRemoveAll_loop e forceRemove (length (ComponentTypes (heap m e))) m = Inr m'"
    by (simp add: entityRemoveAllComponents_def)
  note R = entityRemoveAll_loop_empties [OF l refl assms(2-4)]
  from R show "wf_queries m'" and "ent_wf m' e" and "ComponentTypes (heap m' e) = []"
    and "entities m' = entities m"
    by simp_all
  from R sound_empty_gone [of m' e] show "gone m' e" and "ent_matched m' e" by simp_all
  from R show "f \<noteq> e \<Longrightarrow> heap m' f = heap m f"
    and "f \<noteq> e \<Longrightarrow> ent_wf m f \<Longrightarrow> ent_wf m' f"
    and "f \<noteq> e \<Longrightarrow> ent_wf m f \<Longrightarrow> ent_matched m f \<Longrightarrow> ent_matched m' f"
    by simp_all
qed

lemma entities_update_index:
  "wf_queries (m\<lparr>entities := xs\<rparr>) = wf_queries m"
  "ent_wf (m\<lparr>entities := xs\<rparr>) f = ent_wf m f"
  "ent_matched (m\<lparr>entities := xs\<rparr>) f = ent_matched m f"
  "ent_sound (m\<lparr>entities := xs\<rparr>) f = ent_sound m f"
  "gone (m\<lparr>entities := xs\<rparr>) f = gone m f"
  by (simp_all add: wf_queries_def ent_wf_def ent_matched_def ent_sound_def gone_def)

lemma entitiesToRemove_update_index:
  "wf_queries (m\<lparr>entitiesToRemove := xs\<rparr>) = wf_queries m"
  "ent_wf (m\<lparr>entitiesToRemove := xs\<rparr>) f = ent_wf m f"
  "ent_matched (m\<lparr>entitiesToRemove := xs\<rparr>) f = ent_matched m f"
  by (simp_all add: wf_queries_def ent_wf_def ent_matched_def)

text \<open>The state after the entity left the queries, before its components are removed.\<close>

lemma removeEntity_start:
  assumes "consistent m" and "e \<in> set (entities m)"
  shows "wf_queries (onEntityRemoved e (em_dispatch n e c m))"
    and "ent_wf (onEntityRemoved e (em_dispatch n e c m)) e"
    and "ent_sound (onEntityRemoved e (em_dispatch n e c m)) e"
    and "entities (onEntityRemoved e (em_dispatch n e c m)) = entities m"
    and "f \<in> set (entities m) \<Longrightarrow> ent_wf (onEntityRemoved e (em_dispatch n e c m)) f"
    and "f \<in> set (entities m) \<Longrightarrow> f \<noteq> e \<Longrightarrow>
           ent_matched (onEntityRemoved e (em_dispatch n e c m)) f"
proof -
  let ?m0 = "em_dispatch n e c m"
  have wf0: "wf_queries ?m0" and w0: "\<And>f. f \<in> set (entities m) \<Longrightarrow> ent_wf ?m0 f"
    and mt0: "\<And>f. f \<in> set (entities m) \<Longrightarrow> ent_matched ?m0 f"
    using assms(1)
    by (simp_all add: consistent_def query_membership_def
          index_cong [of ?m0 m, OF em_dispatch_fields(1-3)])
  show "wf_queries (onEntityRemoved e ?m0)" using wf0 by (rule onEntityRemoved_preserves(1))
  show "ent_wf (onEntityRemoved e ?m0) e"
    using onEntityRemoved_preserves(2) [OF wf0] w0 [OF assms(2)] .
  show "ent_sound (onEntityRemoved e ?m0) e"
    using onEntityRemoved_gone [OF wf0 w0 [OF assms(2)]] by (rule gone_sound)
  show "entities (onEntityRemoved e ?m0) = entities m"
    by (simp add: onEntityRemoved_frame em_dispatch_fields)
  show "f \<in> set (entities m) \<Longrightarrow> ent_wf (onEntityRemoved e ?m0) f"
    using onEntityRemoved_preserves(2) [OF wf0] w0 by blast
  show "f \<in> set (entities m) \<Longrightarrow> f \<noteq> e \<Longrightarrow> ent_matched (onEntityRemoved e ?m0) f"
    using onEntityRemoved_preserves(3) [OF wf0] mt0 by blast
qed

lemma removeEntity_deferred:
  assumes "e \<in> set (entities m)" and "removeEntity e False m = Inr m'"
  shows "\<exists>m2. entityRemoveAllComponents e False
                  (onEntityRemoved e (em_dispatch EM_ENTITY_REMOVED e None m)) = Inr m2
            \<and> m' = m2\<lparr>entitiesToRemove := entitiesToRemove m2 @ [e]\<rparr>"
  using assms
  by (auto simp: removeEntity_def Let_def indexOf_absent split: sum.splits)

lemma removeEntity_forced:
  assumes "e \<in> set (entities m)" and "removeEntity e True m = Inr m'"
  shows "\<exists>m2. entityRemoveAllComponents e True
                  ((onEntityRemoved e (em_dispatch EM_ENTITY_REMOVED e None m))
                     \<lparr>entities := remove1 e (entities m)\<rparr>) = Inr m2
            \<and> m' = (Entity_reset e (m2\<lparr>heap := (heap m2)(e := (heap m2 e)\<lparr>e_world := False\<rparr>)\<rparr>))
                     \<lparr>entityPool := (entityPool m2)\<lparr>freeList := freeList (entityPool m2) @ [e]\<rparr>\<rparr>"
  using assms
  by (auto simp: removeEntity_def removeEntitySync_def release_def Let_def indexOf_absent
        splice1_indexOf onEntityRemoved_frame em_dispatch_fields split: sum.splits)

lemma removeEntity_not_live:
  "e \<notin> set (entities m) \<Longrightarrow>
     removeEntity e forceRemove m = Inl (Error ''Tried to remove entity not in list'')"
  by (simp add: removeEntity_def indexOf_absent)

lemma removeEntity_consistent:
  assumes c: "consistent m" and r: "removeEntity e forceRemove m = Inr m'"
  shows "consistent m'"
proof -
  have live: "e \<in> set (entities m)"
    using r removeEntity_not_live [of e m forceRemove] by auto
  let ?m1 = "onEntityRemoved e (em_dispatch EM_ENTITY_REMOVED e None m)"
  note S = removeEntity_start [OF c live, where n = EM_ENTITY_REMOVED and c = None]
  show ?thesis
  proof (cases forceRemove)
    case False
    with r have "removeEntity e False m = Inr m'" by simp
    from removeEntity_deferred [OF live this] obtain m2 where
      ra: "entityRemoveAllComponents e False ?m1 = Inr m2"
      and m': "m' = m2\<lparr>entitiesToRemove := entitiesToRemove m2 @ [e]\<rparr>"
      by blast
    note A = entityRemoveAllComponents_empties [OF ra S(1) S(2) S(3)]
    have ents: "entities m' = entities m" using A(6) S(4) by (simp add: m')
    have "\<forall>f \<in> set (entities m). ent_wf m2 f \<and> ent_matched m2 f"
    proof
      fix f assume f: "f \<in> set (entities m)"
      show "ent_wf m2 f \<and> ent_matched m2 f"
      proof (cases "f = e")
        case True
        with A(2) A(4) show ?thesis by simp
      next
        case False
        with A(8) [of f] A(9) [of f] S(5) [OF f] S(6) [OF f] show ?thesis by simp
      qed
    qed
    with A(1) ents show ?thesis
      by (simp add: consistent_def query_membership_def m' entitiesToRemove_update_index)
  next
    case True
    with r have "removeEntity e True m = Inr m'" by simp
    from removeEntity_forced [OF live this] obtain m2 where
      ra: "entityRemoveAllComponents e True (?m1\<lparr>entities := remove1 e (entities m)\<rparr>) = Inr m2"
      and m': "m' = (Entity_reset e (m2\<lparr>heap := (heap m2)(e := (heap m2 e)\<lparr>e_world := False\<rparr>)\<rparr>))
                     \<lparr>entityPool := (entityPool m2)\<lparr>freeList := freeList (entityPool m2) @ [e]\<rparr>\<rparr>"
      by blast
    let ?m1a = "?m1\<lparr>entities := remove1 e (entities m)\<rparr>"
    have s1: "wf_queries ?m1a" "ent_wf ?m1a e" "ent_sound ?m1a e"
      using S(1-3) by (simp_all add: entities_update_index)
    note A = entityRemoveAllComponents_empties [OF ra s1]
    have qm: "queries_map m' = queries_map m2"
      and ents: "entities m' = remove1 e (entities m)"
      and he: "ComponentTypes (heap m' e) = []" "queries (heap m' e) = []"
      and hf: "\<And>f. f \<noteq> e \<Longrightarrow> heap m' f = heap m2 f"
      using A(6) by (simp_all add: m' Entity_reset_def)
    have wf': "wf_queries m'" using A(1) qm by (simp add: wf_queries_def)
    have "\<forall>f \<in> set (entities m). ent_wf m' f \<and> ent_matched m' f"
    proof
      fix f assume f: "f \<in> set (entities m)"
      show "ent_wf m' f \<and> ent_matched m' f"
      proof (cases "f = e")
        case True
        have g: "gone m' e" using A(3) qm by (simp add: gone_def)
        have "ent_sound m' e" using g by (rule gone_sound)
        from sound_empty_gone(2) [OF wf' this he(1)] g he show ?thesis
          by (simp add: True ent_wf_def linked_def gone_def)
      next
        case False
        have "ent_wf m2 f" and "ent_matched m2 f"
          using A(8) [of f] A(9) [of f] S(5) [OF f] S(6) [OF f] False
          by (simp_all add: entities_update_index)
        with hf [OF False] qm show ?thesis
          by (simp add: ent_wf_def ent_matched_def)
      qed
    qed
    moreover have "set (entities m') \<subseteq> set (entities m)"
      unfolding ents by (rule set_remove1_subset)
    ultimately show ?thesis
      using wf' by (auto simp: consistent_def query_membership_def)
  qed
qed

section \<open>Evaluating the operations on concrete states\<close>

lemma createEntity_fresh:
  "freeList (entityPool m) = [] \<Longrightarrow> pool_count (entityPool m) < 3 \<Longrightarrow>
   createEntity m = Inr (allocated m,
      m\<lparr>heap := (heap m)(allocated m := empty_entity\<lparr>id_ent := nextId m, e_world := True\<rparr>),
        nextId := nextId m + 1, allocated := allocated m + 1,
        entityPool := (entityPool m)\<lparr>pool_count := pool_count (entityPool m) + 1\<rparr>,
        entities := entities m @ [allocated m],
        em_eventDispatcher := (em_eventDispatcher m)\<lparr>fired := fired (em_eventDispatcher m) + 1\<rparr>\<rparr>)"
  by (simp add: createEntity_def aquire_def expand_def growth_eq Entity_new_def em_dispatch_def
        dispatchEvent_def)

lemma createEntity_recycled:
  "freeList (entityPool m) \<noteq> [] \<Longrightarrow>
   createEntity m = Inr (last (freeList (entityPool m)),
      m\<lparr>entityPool := (entityPool m)\<lparr>freeList := butlast (freeList (entityPool m))\<rparr>,
        heap := (heap m)(last (freeList (entityPool m)) :=
                  (heap m (last (freeList (entityPool m))))\<lparr>e_world := True\<rparr>),
        entities := entities m @ [last (freeList (entityPool m))],
        em_eventDispatcher := (em_eventDispatcher m)\<lparr>fired := fired (em_eventDispatcher m) + 1\<rparr>\<rparr>)"
  by (simp add: createEntity_def aquire_def em_dispatch_def dispatchEvent_def)

lemma drain_components_done:
  "ComponentTypesToRemove (heap m e) = [] \<Longrightarrow> drain_components e m = Inr m"
  by (subst drain_components.simps) simp

lemma drain_components_step:
  "ComponentTypesToRemove (heap m e) \<noteq> [] \<Longrightarrow>
     drain_components e m =
       (case pop_component e m of Inl err \<Rightarrow> Inl err | Inr m' \<Rightarrow> drain_components e m')"
  by (subst drain_components.simps) simp

lemma key_A: "queryKey [Plain (CType 0 ''A'' True)] = ''a''"
  by code_simp

lemma lower_A: "lower_char CHR ''A'' = CHR ''a''"
  by code_simp

lemma lower_B: "lower_char CHR ''B'' = CHR ''b''"
  by code_simp

lemmas eval_defs =
  EntityManager_new_def ObjectPool_new_def empty_entity_def EventDispatcher_new_def
  ComponentManager_new_def cA_def cB_def
  getQuery_def Query_new_def Let_def match_def hasComponent_def
  removeEntity_def removeEntitySync_def release_def Entity_reset_def
  onEntityRemoved_def onEntityComponentAdded_def onEntityComponentRemoved_def
  callback_loop_def onEntityRemoved_body_def onEntityComponentAdded_body_def
  onEntityComponentRemoved_body_def Query_addEntity_def Query_removeEntity_def
  entityRemoveAllComponents_def entityRemoveComponent_def entityRemoveComponentSync_def
  entityAddComponent_def getComponentsPool_def componentPropertyName_def getName_def
  lower_A lower_B aquire_def expand_def growth_eq mk_counter_def
  componentAddedToEntity_def componentRemovedFromEntity_def release_component_def
  em_dispatch_def dispatchEvent_def splice1_def
  processDeferredRemoval_def pop_component_def drain_components_done drain_components_step
  ENTITY_ADDED_def ENTITY_REMOVED_def COMPONENT_ADDED_def COMPONENT_REMOVE_def
  EM_ENTITY_REMOVED_def ENTITY_CREATED_def COMPONENT_CHANGED_def

lemma ex_m1_eq:
  "ex_m1 =
   \<lparr>componentsManager =
         \<lparr>Components = \<lambda>x. None, componentPool = \<lambda>x. None,
            numComponents = \<lambda>x. None, instances = 0\<rparr>,
         nextId = Suc 0,
         heap =
           (\<lambda>r. \<lparr>id_ent = 0, e_world = False, ComponentTypes = [],
                   components = \<lambda>x. None, componentsToRemove = \<lambda>x. None,
                   queries = [], ComponentTypesToRemove = []\<rparr>)
           (0 := \<lparr>id_ent = 0, e_world = True, ComponentTypes = [],
                    components = \<lambda>x. None, componentsToRemove = \<lambda>x. None,
                    queries = [], ComponentTypesToRemove = []\<rparr>),
         allocated = Suc 0, entities = [0], queries_map = [],
         em_eventDispatcher =
           \<lparr>listeners = \<lambda>x. None, fired = Suc 0, handled = 0\<rparr>,
         entityPool = \<lparr>freeList = [], pool_count = Suc 0\<rparr>,
         entitiesWithComponentsToRemove = [], entitiesToRemove = []\<rparr>"
  by (simp add: ex_m1_def eval_defs createEntity_fresh)

lemma ex_m2_eq:
  "ex_m2 =
   \<lparr>componentsManager =
         \<lparr>Components = \<lambda>x. None, componentPool = \<lambda>x. None,
            numComponents = \<lambda>x. None, instances = 0\<rparr>,
         nextId = Suc 0,
         heap =
           (\<lambda>r. \<lparr>id_ent = 0, e_world = False, ComponentTypes = [],
                   components = \<lambda>x. None, componentsToRemove = \<lambda>x. None,
                   queries = [], ComponentTypesToRemove = []\<rparr>)
           (0 := \<lparr>id_ent = 0, e_world = True, ComponentTypes = [],
                    components = \<lambda>x. None, componentsToRemove = \<lambda>x. None,
                    queries = [], ComponentTypesToRemove = []\<rparr>),
         allocated = Suc 0, entities = [0],
         queries_map =
           [(''a'',
             \<lparr>q_Components = [CType 0 ''A'' True], q_NotComponents = [],
                q_entities = [],
                eventDispatcher =
                  \<lparr>listeners = \<lambda>x. None, fired = 0, handled = 0\<rparr>,
                reactive = False, q_key = ''a''\<rparr>)],
         em_eventDispatcher =
           \<lparr>listeners = \<lambda>x. None, fired = Suc 0, handled = 0\<rparr>,
         entityPool = \<lparr>freeList = [], pool_count = Suc 0\<rparr>,
         entitiesWithComponentsToRemove = [], entitiesToRemove = []\<rparr>"
  by (simp add: ex_m2_def eval_defs ex_m1_eq key_A)

lemma ex_m3_eq:
  "ex_m3 =
   \<lparr>componentsManager =
         \<lparr>Components = \<lambda>x. None, componentPool = \<lambda>x. None,
            numComponents = \<lambda>x. None, instances = 0\<rparr>,
         nextId = Suc 0,
         heap =
           (\<lambda>r. \<lparr>id_ent = 0, e_world = False, ComponentTypes = [],
                   components = \<lambda>x. None, componentsToRemove = \<lambda>x. None,
                   queries = [], ComponentTypesToRemove = []\<rparr>)
           (0 := \<lparr>id_ent = 0, e_world = True, ComponentTypes = [],
                    components = \<lambda>x. None, componentsToRemove = \<lambda>x. None,
                    queries = [], ComponentTypesToRemove = []\<rparr>),
         allocated = Suc 0, entities = [0],
         queries_map =
           [(''a'',
             \<lparr>q_Components = [CType 0 ''A'' True], q_NotComponents = [],
                q_entities = [],
                eventDispatcher =
                  \<lparr>listeners = \<lambda>x. None, fired = 0, handled = 0\<rparr>,
                reactive = False, q_key = ''a''\<rparr>)],
         em_eventDispatcher =
           \<lparr>listeners = \<lambda>x. None, fired = Suc (Suc 0), handled = 0\<rparr>,
         entityPool = \<lparr>freeList = [], pool_count = Suc 0\<rparr>,
         entitiesWithComponentsToRemove = [], entitiesToRemove = [0]\<rparr>"
  by (simp add: ex_m3_def eval_defs ex_m2_eq)

lemma ex_m4_eq:
  "ex_m4 =
   \<lparr>componentsManager =
         \<lparr>Components = \<lambda>x. None,
            componentPool =
              [''a'' \<mapsto> ObjectPool \<lparr>freeList = [], pool_count = Suc 0\<rparr>],
            numComponents = [''A'' \<mapsto> Num 1], instances = Suc 0\<rparr>,
         nextId = Suc 0,
         heap =
           (\<lambda>r. \<lparr>id_ent = 0, e_world = False, ComponentTypes = [],
                   components = \<lambda>x. None, componentsToRemove = \<lambda>x. None,
                   queries = [], ComponentTypesToRemove = []\<rparr>)
           (0 := \<lparr>id_ent = 0, e_world = True,
                    ComponentTypes = [CType 0 ''A'' True],
                    components = [''A'' \<mapsto> 0], componentsToRemove = \<lambda>x. None,
                    queries = [''a''], ComponentTypesToRemove = []\<rparr>),
         allocated = Suc 0, entities = [0],
         queries_map =
           [(''a'',
             \<lparr>q_Components = [CType 0 ''A'' True], q_NotComponents = [],
                q_entities = [0],
                eventDispatcher =
                  \<lparr>listeners = \<lambda>x. None, fired = Suc 0, handled = 0\<rparr>,
                reactive = False, q_key = ''a''\<rparr>)],
         em_eventDispatcher =
           \<lparr>listeners = \<lambda>x. None, fired = Suc (Suc (Suc 0)), handled = 0\<rparr>,
         entityPool = \<lparr>freeList = [], pool_count = Suc 0\<rparr>,
         entitiesWithComponentsToRemove = [], entitiesToRemove = [0]\<rparr>"
  by (simp add: ex_m4_def eval_defs ex_m3_eq)

lemma ex_m5_eq:
  "ex_m5 =
   \<lparr>componentsManager =
         \<lparr>Components = \<lambda>x. None,
            componentPool =
              [''a'' \<mapsto> ObjectPool \<lparr>freeList = [], pool_count = Suc 0\<rparr>],
            numComponents = [''A'' \<mapsto> Num 1], instances = Suc 0\<rparr>,
         nextId = Suc (Suc 0),
         heap =
           (\<lambda>r. \<lparr>id_ent = 0, e_world = False, ComponentTypes = [],
                   components = \<lambda>x. None, componentsToRemove = \<lambda>x. None,
                   queries = [], ComponentTypesToRemove = []\<rparr>)
           (0 := \<lparr>id_ent = Suc 0, e_world = False, ComponentTypes = [],
                    components = \<lambda>x. None, componentsToRemove = \<lambda>x. None,
                    queries = [], ComponentTypesToRemove = []\<rparr>),
         allocated = Suc 0, entities = [],
         queries_map =
           [(''a'',
             \<lparr>q_Components = [CType 0 ''A'' True], q_NotComponents = [],
                q_entities = [0],
                eventDispatcher =
                  \<lparr>listeners = \<lambda>x. None, fired = Suc 0, handled = 0\<rparr>,
                reactive = False, q_key = ''a''\<rparr>)],
         em_eventDispatcher =
           \<lparr>listeners = \<lambda>x. None, fired = Suc (Suc (Suc 0)), handled = 0\<rparr>,
         entityPool = \<lparr>freeList = [0], pool_count = Suc 0\<rparr>,
         entitiesWithComponentsToRemove = [], entitiesToRemove = []\<rparr>"
  by (simp add: ex_m5_def eval_defs ex_m4_eq pdr_entities.simps pdr_components.simps)

lemma ex_m6_eq:
  "ex_m6 =
   \<lparr>componentsManager =
         \<lparr>Components = \<lambda>x. None,
            componentPool =
              [''a'' \<mapsto> ObjectPool \<lparr>freeList = [], pool_count = Suc 0\<rparr>],
            numComponents = [''A'' \<mapsto> Num 1], instances = Suc 0\<rparr>,
         nextId = Suc (Suc 0),
         heap =
           (\<lambda>r. \<lparr>id_ent = 0, e_world = False, ComponentTypes = [],
                   components = \<lambda>x. None, componentsToRemove = \<lambda>x. None,
                   queries = [], ComponentTypesToRemove = []\<rparr>)
           (0 := \<lparr>id_ent = Suc 0, e_world = True, ComponentTypes = [],
                    components = \<lambda>x. None, componentsToRemove = \<lambda>x. None,
                    queries = [], ComponentTypesToRemove = []\<rparr>),
         allocated = Suc 0, entities = [0],
         queries_map =
           [(''a'',
             \<lparr>q_Components = [CType 0 ''A'' True], q_NotComponents = [],
                q_entities = [0],
                eventDispatcher =
                  \<lparr>listeners = \<lambda>x. None, fired = Suc 0, handled = 0\<rparr>,
                reactive = False, q_key = ''a''\<rparr>)],
         em_eventDispatcher =
           \<lparr>listeners = \<lambda>x. None, fired = Suc (Suc (Suc (Suc 0))),
              handled = 0\<rparr>,
         entityPool = \<lparr>freeList = [], pool_count = Suc 0\<rparr>,
         entitiesWithComponentsToRemove = [], entitiesToRemove = []\<rparr>"
  by (simp add: ex_m6_def eval_defs ex_m5_eq createEntity_recycled)

lemma ex_m7_eq:
  "ex_m7 =
   \<lparr>componentsManager =
         \<lparr>Components = \<lambda>x. None,
            componentPool =
              [''a'' \<mapsto> ObjectPool \<lparr>freeList = [], pool_count = Suc 0\<rparr>,
               ''b'' \<mapsto> ObjectPool \<lparr>freeList = [], pool_count = Suc 0\<rparr>],
            numComponents = [''A'' \<mapsto> Num 1, ''B'' \<mapsto> Num 1],
            instances = Suc (Suc 0)\<rparr>,
         nextId = Suc (Suc 0),
         heap =
           (\<lambda>r. \<lparr>id_ent = 0, e_world = False, ComponentTypes = [],
                   components = \<lambda>x. None, componentsToRemove = \<lambda>x. None,
                   queries = [], ComponentTypesToRemove = []\<rparr>)
           (0 := \<lparr>id_ent = Suc 0, e_world = True,
                    ComponentTypes = [CType (Suc 0) ''B'' True],
                    components = [''B'' \<mapsto> Suc 0],
                    componentsToRemove = \<lambda>x. None, queries = [],
                    ComponentTypesToRemove = []\<rparr>),
         allocated = Suc 0, entities = [0],
         queries_map =
           [(''a'',
             \<lparr>q_Components = [CType 0 ''A'' True], q_NotComponents = [],
                q_entities = [0],
                eventDispatcher =
                  \<lparr>listeners = \<lambda>x. None, fired = Suc 0, handled = 0\<rparr>,
                reactive = False, q_key = ''a''\<rparr>)],
         em_eventDispatcher =
           \<lparr>listeners = \<lambda>x. None, fired = Suc (Suc (Suc (Suc (Suc 0)))),
              handled = 0\<rparr>,
         entityPool = \<lparr>freeList = [], pool_count = Suc 0\<rparr>,
         entitiesWithComponentsToRemove = [], entitiesToRemove = []\<rparr>"
  by (simp add: ex_m7_def eval_defs ex_m6_eq)

section \<open>C1: query membership\<close>

lemma Inr_projr: "\<exists>y. x = Inr y \<Longrightarrow> x = Inr (projr x)"
  by auto

lemma ex_steps:
  "createEntity EntityManager_new = Inr (0, ex_m1)"
  "getQuery [Plain cA] ex_m1 = Inr (''a'', ex_m2)"
  "removeEntity 0 False ex_m2 = Inr ex_m3"
  "processDeferredRemoval ex_m4 = Inr ex_m5"
  "createEntity ex_m5 = Inr (0, ex_m6)"
proof -
  show "createEntity EntityManager_new = Inr (0, ex_m1)"
    by (simp add: ex_m1_def createEntity_fresh EntityManager_new_def ObjectPool_new_def)
  show "getQuery [Plain cA] ex_m1 = Inr (''a'', ex_m2)"
    by (simp add: ex_m2_def ex_m1_eq getQuery_def Query_new_def Let_def cA_def key_A)
  have "\<exists>y. removeEntity 0 False ex_m2 = Inr y"
    by (simp add: ex_m2_eq eval_defs)
  then show "removeEntity 0 False ex_m2 = Inr ex_m3"
    unfolding ex_m3_def by (rule Inr_projr)
  have "\<exists>y. processDeferredRemoval ex_m4 = Inr y"
    by (simp add: ex_m4_eq eval_defs pdr_entities.simps pdr_components.simps)
  then show "processDeferredRemoval ex_m4 = Inr ex_m5"
    unfolding ex_m5_def by (rule Inr_projr)
  show "createEntity ex_m5 = Inr (0, ex_m6)"
    by (simp add: ex_m6_def ex_m5_eq createEntity_recycled)
qed

text \<open>
  C1 (the code breaks the claim). An entity is created, a query on \<open>A\<close> is made, the
  entity is removed (not forced) and, before the frame ends, given the component \<open>A\<close>, so
  that the query lists it. The deferred removal releases the entity to the pool without
  taking it out of the query. \<open>createEntity\<close> hands the same object out again; after
  \<open>entityAddComponent\<close> of a type \<open>B\<close> on it the entity is live, has \<open>B\<close> only, and is
  listed by the query on \<open>A\<close>.
\<close>

theorem C1_stale_membership:
  "createEntity EntityManager_new = Inr (0, ex_m1)
   \<and> getQuery [Plain cA] ex_m1 = Inr (''a'', ex_m2)
   \<and> removeEntity 0 False ex_m2 = Inr ex_m3
   \<and> ex_m4 = entityAddComponent 0 cA ex_m3
   \<and> processDeferredRemoval ex_m4 = Inr ex_m5
   \<and> createEntity ex_m5 = Inr (0, ex_m6)
   \<and> ex_m7 = entityAddComponent 0 cB ex_m6
   \<and> entities ex_m7 = [0]
   \<and> q_Components (snd (hd (queries_map ex_m7))) = [cA]
   \<and> q_entities (snd (hd (queries_map ex_m7))) = [0]
   \<and> ComponentTypes (heap ex_m7 0) = [cB]
   \<and> \<not> match (snd (hd (queries_map ex_m7))) (heap ex_m7 0)"
proof -
  have "\<not> match (snd (hd (queries_map ex_m7))) (heap ex_m7 0)"
    by (simp add: ex_m7_eq match_iff)
  moreover have "entities ex_m7 = [0]
     \<and> q_Components (snd (hd (queries_map ex_m7))) = [cA]
     \<and> q_entities (snd (hd (queries_map ex_m7))) = [0]
     \<and> ComponentTypes (heap ex_m7 0) = [cB]"
    by (simp add: ex_m7_eq cA_def cB_def)
  ultimately show ?thesis
    using ex_steps by (simp add: ex_m4_def ex_m7_def)
qed

text \<open>
  The three mutations themselves keep the index in order. When the query index is
  consistent (every query lists a live entity exactly if the entity has all its positive
  types and none of its negated ones, the back-edges of the live entities agree with the
  queries, and nothing is listed twice), it is consistent again after any single
  \<open>entityAddComponent\<close>, \<open>entityRemoveComponent\<close> (forced or not) or \<open>removeEntity\<close>
  (forced or not) that completes.
\<close>

lemma membership_preserved:
  assumes "consistent m"
  shows "consistent (entityAddComponent e C m) \<and> query_membership (entityAddComponent e C m)
       \<and> (\<forall>m'. entityRemoveComponent e C forceRemove m = Inr m'
                \<longrightarrow> consistent m' \<and> query_membership m')
       \<and> (\<forall>m'. removeEntity e forceRemove m = Inr m'
                \<longrightarrow> consistent m' \<and> query_membership m')"
  using assms entityAddComponent_consistent [OF assms, of e C]
    entityRemoveComponent_consistent [OF assms, of e C forceRemove]
    removeEntity_consistent [OF assms, of e forceRemove]
  by (simp add: consistent_def)

lemma not_membership_ex_m7: "\<not> query_membership ex_m7"
  by (simp add: ex_m7_eq query_membership_def ent_matched_def match_iff)

lemma ex_m2_consistent: "consistent ex_m2"
  by (simp add: ex_m2_eq consistent_def wf_queries_def ent_wf_def query_membership_def
        ent_matched_def linked_def match_iff)

lemma membership_preserved_example:
  "consistent ex_m2
   \<and> query_membership (entityAddComponent 0 cA ex_m2)
   \<and> q_entities (snd (hd (queries_map (entityAddComponent 0 cA ex_m2)))) = [0]
   \<and> removeEntity 0 False ex_m2 = Inr ex_m3
   \<and> query_membership ex_m3"
proof -
  have q: "q_entities (snd (hd (queries_map (entityAddComponent 0 cA ex_m2)))) = [0]"
    by (simp add: ex_m2_eq eval_defs)
  from membership_preserved [OF ex_m2_consistent, of 0 cA False] ex_steps(3) q ex_m2_consistent
  show ?thesis by simp
qed

section \<open>C2: attached and staged types\<close>

lemma typed_ok_cong:
  "ComponentTypes ent' = ComponentTypes ent \<Longrightarrow>
   ComponentTypesToRemove ent' = ComponentTypesToRemove ent \<Longrightarrow> typed_ok ent' = typed_ok ent"
  by (simp add: typed_ok_def)

lemma same_but_queries_typed: "same_but_queries ent ent' \<Longrightarrow> typed_ok ent' = typed_ok ent"
  by (rule typed_ok_cong) (simp_all add: same_but_queries_fields)

lemma callback_loop_same:
  assumes "\<And>k q ent'. q_side e q (fst (body k q ent')) \<and> same_but_queries ent' (snd (body k q ent'))"
  shows "same_but_queries (heap m e) (heap (callback_loop body e m) e)"
  by (rule callback_loop_rel(2) [OF assms, where R = "\<lambda>k q q'. True"]) simp

lemma callback_loop_typed:
  assumes "\<And>k q ent'. q_side e q (fst (body k q ent')) \<and> same_but_queries ent' (snd (body k q ent'))"
  shows "typed_ok (heap (callback_loop body e m) r) = typed_ok (heap m r)"
proof (cases "r = e")
  case True
  show ?thesis
    unfolding True using callback_loop_same [OF assms] by (rule same_but_queries_typed)
next
  case False
  then show ?thesis by (simp add: callback_loop_fields)
qed

lemma entityRemoveComponent_pending:
  assumes "entityRemoveComponent e C forceRemove m = Inr m'"
  shows "ComponentTypesToRemove (heap m' e) =
           (if C \<in> set (ComponentTypes (heap m e)) \<and> \<not> forceRemove
            then ComponentTypesToRemove (heap m e) @ [C] else ComponentTypesToRemove (heap m e))"
proof (cases "C \<in> set (ComponentTypes (heap m e))")
  case False
  with assms show ?thesis by (simp add: entityRemoveComponent_absent)
next
  case True
  show ?thesis
  proof (cases forceRemove)
    case False
    with assms True have m': "m' = onEntityComponentRemoved e C (staged e C m)"
      by (simp add: entityRemoveComponent_deferred)
    have "ComponentTypesToRemove (heap m' e) = ComponentTypesToRemove (heap (staged e C m) e)"
      unfolding m' using onEntityComponentRemoved_same [of "staged e C m" e C]
      by (rule same_but_queries_fields)
    with True False show ?thesis
      by (simp add: staged_def Let_def em_dispatch_fields)
  next
    case f: True
    with assms have "entityRemoveComponent e C True m = Inr m'" by simp
    from entityRemoveComponent_forced [OF True this] obtain m1 where
      s: "entityRemoveComponentSync e C (indexOf (ComponentTypes (heap m e)) C)
                  (em_dispatch COMPONENT_REMOVE e (Some C) m) = Inr m1"
      and m': "m' = onEntityComponentRemoved e C m1"
      by blast
    have p1: "ComponentTypesToRemove (heap m1 e) = ComponentTypesToRemove (heap m e)"
      using entityRemoveComponentSync_retyped(2) [of e C "em_dispatch COMPONENT_REMOVE e (Some C) m" m1]
        s True
      by (simp add: em_dispatch_fields)
    have "ComponentTypesToRemove (heap m' e) = ComponentTypesToRemove (heap m1 e)"
      unfolding m' using onEntityComponentRemoved_same [of m1 e C]
      by (rule same_but_queries_fields)
    with p1 f show ?thesis by simp
  qed
qed

lemma entityRemoveComponent_typed:
  assumes "entityRemoveComponent e C forceRemove m = Inr m'" and "typed_ok (heap m r)"
  shows "typed_ok (heap m' r)"
proof (cases "r = e")
  case False
  with entityRemoveComponent_types(2) [OF assms(1)] assms(2) show ?thesis by simp
next
  case True
  from assms(2) True have ok: "typed_ok (heap m e)" by simp
  have ty: "ComponentTypes (heap m' e) = remove1 C (ComponentTypes (heap m e))"
    using assms(1) by (rule entityRemoveComponent_types(1))
  note pe = entityRemoveComponent_pending [OF assms(1)]
  have "typed_ok (heap m' e)"
    unfolding typed_ok_def ty pe using ok
    by (auto simp: typed_ok_def dest: notin_set_remove1)
  with True show ?thesis by simp
qed

lemma entityAddComponent_types:
  "ComponentTypes (heap (entityAddComponent e C m) e) =
     (if C \<in> set (ComponentTypes (heap m e)) then ComponentTypes (heap m e)
      else ComponentTypes (heap m e) @ [C])"
  "ComponentTypesToRemove (heap (entityAddComponent e C m) e) = ComponentTypesToRemove (heap m e)"
  "componentsToRemove (heap (entityAddComponent e C m) e) = componentsToRemove (heap m e)"
  "r \<noteq> e \<Longrightarrow> heap (entityAddComponent e C m) r = heap m r"
proof -
  have "ComponentTypes (heap (entityAddComponent e C m) e) =
     (if C \<in> set (ComponentTypes (heap m e)) then ComponentTypes (heap m e)
      else ComponentTypes (heap m e) @ [C])
     \<and> ComponentTypesToRemove (heap (entityAddComponent e C m) e) = ComponentTypesToRemove (heap m e)
     \<and> componentsToRemove (heap (entityAddComponent e C m) e) = componentsToRemove (heap m e)
     \<and> (r \<noteq> e \<longrightarrow> heap (entityAddComponent e C m) r = heap m r)"
  proof (cases "C \<in> set (ComponentTypes (heap m e))")
    case True
    then show ?thesis by (simp add: entityAddComponent_old)
  next
    case False
    from entityAddComponent_new [OF False] obtain m1 cm where
      rt: "retyped m m1 e (ComponentTypes (heap m e) @ [C])"
      and p: "ComponentTypesToRemove (heap m1 e) = ComponentTypesToRemove (heap m e)"
      and cr: "componentsToRemove (heap m1 e) = componentsToRemove (heap m e)"
      and eq: "entityAddComponent e C m =
                em_dispatch COMPONENT_ADDED e (Some C)
                  ((onEntityComponentAdded e C m1)\<lparr>componentsManager := cm\<rparr>)"
      by blast
    note sq = same_but_queries_fields [OF onEntityComponentAdded_same [of m1 e C]]
    show ?thesis
      unfolding eq using rt p cr False sq
      by (simp add: em_dispatch_fields onEntityComponentAdded_frame retyped_def)
  qed
  then show "ComponentTypes (heap (entityAddComponent e C m) e) =
     (if C \<in> set (ComponentTypes (heap m e)) then ComponentTypes (heap m e)
      else ComponentTypes (heap m e) @ [C])"
  "ComponentTypesToRemove (heap (entityAddComponent e C m) e) = ComponentTypesToRemove (heap m e)"
  "componentsToRemove (heap (entityAddComponent e C m) e) = componentsToRemove (heap m e)"
  "r \<noteq> e \<Longrightarrow> heap (entityAddComponent e C m) r = heap m r"
    by simp_all
qed

lemma entityAddComponent_typed:
  assumes "typed_ok (heap m r)" and "r = e \<Longrightarrow> C \<notin> set (ComponentTypesToRemove (heap m e))"
  shows "typed_ok (heap (entityAddComponent e C m) r)"
proof (cases "r = e")
  case False
  with assms(1) show ?thesis by (simp add: entityAddComponent_types)
next
  case True
  with assms have "typed_ok (heap m e)" and "C \<notin> set (ComponentTypesToRemove (heap m e))"
    by simp_all
  then have "typed_ok (heap (entityAddComponent e C m) e)"
    unfolding typed_ok_def entityAddComponent_types by auto
  with True show ?thesis by simp
qed

subsection \<open>The other operations keep attached and staged types apart\<close>

lemma entityRemoveAll_loop_typed:
  assumes "entityRemoveAll_loop e forceRemove n m = Inr m'" and "typed_ok (heap m r)"
  shows "typed_ok (heap m' r)"
  using assms
proof (induction n arbitrary: m)
  case 0
  then show ?case by simp
next
  case (Suc j)
  show ?case
  proof (cases "j < length (ComponentTypes (heap m e))")
    case True
    with Suc.prems(1) obtain m1 where
      r: "entityRemoveComponent e (ComponentTypes (heap m e) ! j) forceRemove m = Inr m1"
      and rest: "entityRemoveAll_loop e forceRemove j m1 = Inr m'"
      by (auto split: sum.splits)
    from r Suc.prems(2) have "typed_ok (heap m1 r)" by (rule entityRemoveComponent_typed)
    with rest show ?thesis by (rule Suc.IH)
  next
    case False
    with Suc.prems show ?thesis by (simp add: Suc.IH)
  qed
qed

lemma Entity_reset_typed: "typed_ok (heap m r) \<Longrightarrow> typed_ok (heap (Entity_reset e m) r)"
  by (simp add: Entity_reset_def typed_ok_def)

lemma removeEntitySync_typed:
  assumes "removeEntitySync e index rmAll m = Inr m'" and "typed_ok (heap m r)"
  shows "typed_ok (heap m' r)"
proof -
  let ?m1 = "m\<lparr>entities := splice1 index (entities m)\<rparr>"
  from assms(1) obtain m2 where
    m2: "(if rmAll then entityRemoveAllComponents e True ?m1 else Inr ?m1) = Inr m2"
    and m': "m' = (Entity_reset e (m2\<lparr>heap := (heap m2)(e := (heap m2 e)\<lparr>e_world := False\<rparr>)\<rparr>))
                     \<lparr>entityPool := (entityPool m2)\<lparr>freeList := freeList (entityPool m2) @ [e]\<rparr>\<rparr>"
    by (auto simp: removeEntitySync_def release_def Let_def split: sum.splits)
  have "typed_ok (heap m2 r)"
  proof (cases rmAll)
    case True
    with m2 have "entityRemoveAll_loop e True (length (ComponentTypes (heap ?m1 e))) ?m1 = Inr m2"
      by (simp add: entityRemoveAllComponents_def)
    then show ?thesis by (rule entityRemoveAll_loop_typed) (use assms(2) in simp)
  next
    case False
    with m2 assms(2) show ?thesis by auto
  qed
  then have "typed_ok (heap (m2\<lparr>heap := (heap m2)(e := (heap m2 e)\<lparr>e_world := False\<rparr>)\<rparr>) r)"
    by (auto simp: typed_ok_def)
  then show ?thesis
    unfolding m' by (cases "r = e") (simp_all add: Entity_reset_def typed_ok_def)
qed

lemma onEntityRemoved_typed: "typed_ok (heap (onEntityRemoved e m) r) = typed_ok (heap m r)"
  unfolding onEntityRemoved_def by (rule callback_loop_typed [OF entity_removed_bodies])

lemma removeEntity_typed:
  assumes "removeEntity e forceRemove m = Inr m'" and "typed_ok (heap m r)"
  shows "typed_ok (heap m' r)"
proof -
  let ?m1 = "onEntityRemoved e (em_dispatch EM_ENTITY_REMOVED e None m)"
  have t1: "typed_ok (heap ?m1 r)"
    using assms(2) by (simp add: onEntityRemoved_typed em_dispatch_fields)
  show ?thesis
  proof (cases forceRemove)
    case True
    with assms(1) have "removeEntitySync e (indexOf (entities m) e) True ?m1 = Inr m'"
      by (auto simp: removeEntity_def Let_def split: if_splits)
    then show ?thesis using t1 by (rule removeEntitySync_typed)
  next
    case False
    with assms(1) obtain m2 where
      ra: "entityRemoveAllComponents e False ?m1 = Inr m2"
      and m': "m' = m2\<lparr>entitiesToRemove := entitiesToRemove m2 @ [e]\<rparr>"
      by (auto simp: removeEntity_def Let_def split: if_splits sum.splits)
    from ra have "entityRemoveAll_loop e False (length (ComponentTypes (heap ?m1 e))) ?m1 = Inr m2"
      by (simp add: entityRemoveAllComponents_def)
    then have "typed_ok (heap m2 r)" using t1 by (rule entityRemoveAll_loop_typed)
    then show ?thesis by (simp add: m')
  qed
qed

lemma pdr_entities_typed:
  assumes "pdr_entities es m = Inr m'" and "typed_ok (heap m r)"
  shows "typed_ok (heap m' r)"
  using assms
proof (induction es arbitrary: m)
  case Nil
  then show ?case by simp
next
  case (Cons e es)
  from Cons.prems(1) obtain m1 where
    s: "removeEntitySync e (indexOf (entities m) e) False m = Inr m1"
    and rest: "pdr_entities es m1 = Inr m'"
    by (auto split: sum.splits)
  from s Cons.prems(2) have "typed_ok (heap m1 r)" by (rule removeEntitySync_typed)
  with rest show ?case by (rule Cons.IH)
qed

lemma pop_component_typed:
  assumes "pop_component e m = Inr m'" and "typed_ok (heap m r)"
  shows "typed_ok (heap m' r)"
proof -
  from assms(1) have h: "heap m' = (heap m)(e := (heap m e)
         \<lparr>ComponentTypesToRemove := butlast (ComponentTypesToRemove (heap m e)),
          componentsToRemove := (componentsToRemove (heap m e))
             (getName (last (ComponentTypesToRemove (heap m e))) := None)\<rparr>)"
    by (auto simp: pop_component_def Let_def split: sum.splits)
  show ?thesis
    unfolding h using assms(2) by (auto simp: typed_ok_def dest: in_set_butlastD)
qed

lemma drain_components_typed:
  assumes "drain_components e m = Inr m'" and "typed_ok (heap m r)"
  shows "typed_ok (heap m' r)"
  using assms
proof (induction e m rule: drain_components.induct)
  case (1 e m)
  show ?case
  proof (cases "length (ComponentTypesToRemove (heap m e)) > 0")
    case True
    with "1.prems"(1) obtain m1 where
      p: "pop_component e m = Inr m1" and rest: "drain_components e m1 = Inr m'"
      by (subst (asm) drain_components.simps) (auto split: sum.splits)
    from p "1.prems"(2) have "typed_ok (heap m1 r)" by (rule pop_component_typed)
    with "1.IH" [OF True p rest] show ?thesis by simp
  next
    case False
    with "1.prems" show ?thesis by (subst (asm) drain_components.simps) simp
  qed
qed

lemma pdr_components_typed:
  assumes "pdr_components es m = Inr m'" and "typed_ok (heap m r)"
  shows "typed_ok (heap m' r)"
  using assms
proof (induction es arbitrary: m)
  case Nil
  then show ?case by simp
next
  case (Cons e es)
  from Cons.prems(1) obtain m1 where
    s: "drain_components e m = Inr m1" and rest: "pdr_components es m1 = Inr m'"
    by (auto split: sum.splits)
  from s Cons.prems(2) have "typed_ok (heap m1 r)" by (rule drain_components_typed)
  with rest show ?case by (rule Cons.IH)
qed

lemma processDeferredRemoval_typed:
  assumes "processDeferredRemoval m = Inr m'" and "typed_ok (heap m r)"
  shows "typed_ok (heap m' r)"
proof -
  from assms(1) obtain m1 m3 where
    a: "pdr_entities (entitiesToRemove m) m = Inr m1"
    and b: "pdr_components (entitiesWithComponentsToRemove m1) (m1\<lparr>entitiesToRemove := []\<rparr>) = Inr m3"
    and m': "m' = m3\<lparr>entitiesWithComponentsToRemove := []\<rparr>"
    by (auto simp: processDeferredRemoval_def Let_def split: sum.splits)
  from a assms(2) have "typed_ok (heap m1 r)" by (rule pdr_entities_typed)
  then have "typed_ok (heap (m1\<lparr>entitiesToRemove := []\<rparr>) r)" by simp
  with b have "typed_ok (heap m3 r)" by (rule pdr_components_typed)
  then show ?thesis by (simp add: m')
qed

lemma expand_loop_Entity_new_typed:
  assumes "\<forall>r. typed_ok (heap m r)"
  shows "\<forall>r. typed_ok (heap (snd (expand_loop Entity_new n fl m)) r)"
  using assms
proof (induction n arbitrary: fl m)
  case 0
  then show ?case by simp
next
  case (Suc n)
  have "\<forall>r. typed_ok (heap (snd (Entity_new m)) r)"
    using Suc.prems by (simp add: Entity_new_def typed_ok_def empty_entity_def)
  from Suc.IH [OF this] show ?case by (simp add: case_prod_beta)
qed

lemma createEntity_typed:
  assumes "createEntity m = Inr (e, m')" and "\<forall>r. typed_ok (heap m r)"
  shows "typed_ok (heap m' r)"
proof -
  let ?a = "aquire Entity_new (entityPool m) m"
  have h: "\<forall>r. typed_ok (heap (snd (snd ?a)) r)"
    using expand_loop_Entity_new_typed [OF assms(2)] assms(2)
    by (simp add: aquire_def expand_def case_prod_beta)
  from assms(1) have m': "m' = em_dispatch ENTITY_CREATED e None
        ((snd (snd ?a))\<lparr>entityPool := fst (snd ?a),
            heap := (heap (snd (snd ?a)))(e := (heap (snd (snd ?a)) e)\<lparr>e_world := True\<rparr>),
            entities := entities (snd (snd ?a)) @ [e]\<rparr>)"
    by (auto simp: createEntity_def case_prod_beta split: option.splits)
  show ?thesis
    unfolding m' using h by (simp add: em_dispatch_fields typed_ok_def)
qed

lemma Query_fill_typed:
  "typed_ok (snd (Query_fill k es q h) r) = typed_ok (h r)"
  by (induction es arbitrary: q h) (simp_all add: typed_ok_def)

lemma getQuery_typed:
  assumes "getQuery s m = Inr (k, m')" and "typed_ok (heap m r)"
  shows "typed_ok (heap m' r)"
  using assms
  by (auto simp: getQuery_def Query_new_def Let_def Query_fill_typed case_prod_beta
           split: option.splits if_splits)

section \<open>Examples for the staged removal\<close>

lemma c2_m2_eq:
  "c2_m2 =
   \<lparr>componentsManager =
         \<lparr>Components = \<lambda>x. None,
            componentPool =
              [''a'' \<mapsto> ObjectPool \<lparr>freeList = [], pool_count = Suc 0\<rparr>],
            numComponents = [''A'' \<mapsto> Num 1], instances = Suc 0\<rparr>,
         nextId = Suc 0,
         heap =
           (\<lambda>r. \<lparr>id_ent = 0, e_world = False, ComponentTypes = [],
                   components = \<lambda>x. None, componentsToRemove = \<lambda>x. None,
                   queries = [], ComponentTypesToRemove = []\<rparr>)
           (0 := \<lparr>id_ent = 0, e_world = True,
                    ComponentTypes = [CType 0 ''A'' True],
                    components = [''A'' \<mapsto> 0], componentsToRemove = \<lambda>x. None,
                    queries = [], ComponentTypesToRemove = []\<rparr>),
         allocated = Suc 0, entities = [0], queries_map = [],
         em_eventDispatcher =
           \<lparr>listeners = \<lambda>x. None, fired = Suc (Suc 0), handled = 0\<rparr>,
         entityPool = \<lparr>freeList = [], pool_count = Suc 0\<rparr>,
         entitiesWithComponentsToRemove = [], entitiesToRemove = []\<rparr>"
  by (simp add: c2_m2_def eval_defs ex_m1_eq)

lemma c2_m3_eq:
  "c2_m3 =
   \<lparr>componentsManager =
         \<lparr>Components = \<lambda>x. None,
            componentPool =
              [''a'' \<mapsto> ObjectPool \<lparr>freeList = [], pool_count = Suc 0\<rparr>],
            numComponents = [''A'' \<mapsto> Num 1], instances = Suc 0\<rparr>,
         nextId = Suc 0,
         heap =
           (\<lambda>r. \<lparr>id_ent = 0, e_world = False, ComponentTypes = [],
                   components = \<lambda>x. None, componentsToRemove = \<lambda>x. None,
                   queries = [], ComponentTypesToRemove = []\<rparr>)
           (0 := \<lparr>id_ent = 0, e_world = True, ComponentTypes = [],
                    components = \<lambda>x. None, componentsToRemove = [''A'' \<mapsto> 0],
                    queries = [],
                    ComponentTypesToRemove = [CType 0 ''A'' True]\<rparr>),
         allocated = Suc 0, entities = [0], queries_map = [],
         em_eventDispatcher =
           \<lparr>listeners = \<lambda>x. None, fired = Suc (Suc (Suc 0)), handled = 0\<rparr>,
         entityPool = \<lparr>freeList = [], pool_count = Suc 0\<rparr>,
         entitiesWithComponentsToRemove = [0], entitiesToRemove = []\<rparr>"
  by (simp add: c2_m3_def eval_defs c2_m2_eq)

lemma c2_m4_eq:
  "c2_m4 =
   \<lparr>componentsManager =
         \<lparr>Components = \<lambda>x. None,
            componentPool =
              [''a'' \<mapsto>
               ObjectPool \<lparr>freeList = [], pool_count = Suc (Suc 0)\<rparr>],
            numComponents = [''A'' \<mapsto> Num 2], instances = Suc (Suc 0)\<rparr>,
         nextId = Suc 0,
         heap =
           (\<lambda>r. \<lparr>id_ent = 0, e_world = False, ComponentTypes = [],
                   components = \<lambda>x. None, componentsToRemove = \<lambda>x. None,
                   queries = [], ComponentTypesToRemove = []\<rparr>)
           (0 := \<lparr>id_ent = 0, e_world = True,
                    ComponentTypes = [CType 0 ''A'' True],
                    components = [''A'' \<mapsto> Suc 0],
                    componentsToRemove = [''A'' \<mapsto> 0], queries = [],
                    ComponentTypesToRemove = [CType 0 ''A'' True]\<rparr>),
         allocated = Suc 0, entities = [0], queries_map = [],
         em_eventDispatcher =
           \<lparr>listeners = \<lambda>x. None, fired = Suc (Suc (Suc (Suc 0))),
              handled = 0\<rparr>,
         entityPool = \<lparr>freeList = [], pool_count = Suc 0\<rparr>,
         entitiesWithComponentsToRemove = [0], entitiesToRemove = []\<rparr>"
  by (simp add: c2_m4_def eval_defs c2_m3_eq)

lemma c2_m5_eq:
  "c2_m5 =
   \<lparr>componentsManager =
         \<lparr>Components = \<lambda>x. None,
            componentPool =
              [''a'' \<mapsto>
               ObjectPool \<lparr>freeList = [], pool_count = Suc (Suc 0)\<rparr>],
            numComponents = [''A'' \<mapsto> Num 2], instances = Suc (Suc 0)\<rparr>,
         nextId = Suc 0,
         heap =
           (\<lambda>r. \<lparr>id_ent = 0, e_world = False, ComponentTypes = [],
                   components = \<lambda>x. None, componentsToRemove = \<lambda>x. None,
                   queries = [], ComponentTypesToRemove = []\<rparr>)
           (0 := \<lparr>id_ent = 0, e_world = True, ComponentTypes = [],
                    components = \<lambda>x. None,
                    componentsToRemove = [''A'' \<mapsto> Suc 0], queries = [],
                    ComponentTypesToRemove =
                      [CType 0 ''A'' True, CType 0 ''A'' True]\<rparr>),
         allocated = Suc 0, entities = [0], queries_map = [],
         em_eventDispatcher =
           \<lparr>listeners = \<lambda>x. None, fired = Suc (Suc (Suc (Suc (Suc 0)))),
              handled = 0\<rparr>,
         entityPool = \<lparr>freeList = [], pool_count = Suc 0\<rparr>,
         entitiesWithComponentsToRemove = [0], entitiesToRemove = []\<rparr>"
  by (simp add: c2_m5_def eval_defs c2_m4_eq)

subsection \<open>Attached and staged types stay apart, but for one case\<close>

lemma new_typed: "typed_ok (heap EntityManager_new r)"
  by (simp add: EntityManager_new_def empty_entity_def typed_ok_def)

text \<open>
  Every operation of the entity manager keeps the attached types of every entity free of
  duplicates and apart from its staged types, except \<open>entityAddComponent\<close> of a type that
  is staged on the entity: that type is then attached and staged.
\<close>

lemma attached_staged_apart:
  assumes "\<forall>r. typed_ok (heap m r)"
  shows "(C \<notin> set (ComponentTypesToRemove (heap m e))
            \<longrightarrow> (\<forall>r. typed_ok (heap (entityAddComponent e C m) r)))
       \<and> (\<forall>m'. entityRemoveComponent e C forceRemove m = Inr m' \<longrightarrow> (\<forall>r. typed_ok (heap m' r)))
       \<and> (\<forall>m'. removeEntity e forceRemove m = Inr m' \<longrightarrow> (\<forall>r. typed_ok (heap m' r)))
       \<and> (\<forall>e' m'. createEntity m = Inr (e', m') \<longrightarrow> (\<forall>r. typed_ok (heap m' r)))
       \<and> (\<forall>m'. processDeferredRemoval m = Inr m' \<longrightarrow> (\<forall>r. typed_ok (heap m' r)))
       \<and> (\<forall>s k m'. getQuery s m = Inr (k, m') \<longrightarrow> (\<forall>r. typed_ok (heap m' r)))
       \<and> (C \<in> set (ComponentTypesToRemove (heap m e))
            \<longrightarrow> \<not> typed_ok (heap (entityAddComponent e C m) e))"
proof -
  have a: "C \<notin> set (ComponentTypesToRemove (heap m e))
            \<longrightarrow> (\<forall>r. typed_ok (heap (entityAddComponent e C m) r))"
    using assms entityAddComponent_typed [of m _ e C] by blast
  have b: "\<forall>m'. entityRemoveComponent e C forceRemove m = Inr m' \<longrightarrow> (\<forall>r. typed_ok (heap m' r))"
    using assms entityRemoveComponent_typed by blast
  have c: "\<forall>m'. removeEntity e forceRemove m = Inr m' \<longrightarrow> (\<forall>r. typed_ok (heap m' r))"
    using assms removeEntity_typed by blast
  have d: "\<forall>e' m'. createEntity m = Inr (e', m') \<longrightarrow> (\<forall>r. typed_ok (heap m' r))"
    using assms createEntity_typed by blast
  have f: "\<forall>m'. processDeferredRemoval m = Inr m' \<longrightarrow> (\<forall>r. typed_ok (heap m' r))"
    using assms processDeferredRemoval_typed by blast
  have g: "\<forall>s k m'. getQuery s m = Inr (k, m') \<longrightarrow> (\<forall>r. typed_ok (heap m' r))"
    using assms getQuery_typed by blast
  have h: "C \<in> set (ComponentTypesToRemove (heap m e))
            \<longrightarrow> \<not> typed_ok (heap (entityAddComponent e C m) e)"
    unfolding typed_ok_def entityAddComponent_types by auto
  from a b c d f g h show ?thesis by blast
qed

lemma c2_steps:
  "entityRemoveComponent 0 cA False c2_m2 = Inr c2_m3"
  "entityRemoveComponent 0 cA False c2_m4 = Inr c2_m5"
proof -
  have "\<exists>y. entityRemoveComponent 0 cA False c2_m2 = Inr y"
    by (simp add: c2_m2_eq eval_defs)
  then show "entityRemoveComponent 0 cA False c2_m2 = Inr c2_m3"
    unfolding c2_m3_def by (rule Inr_projr)
  have "\<exists>y. entityRemoveComponent 0 cA False c2_m4 = Inr y"
    by (simp add: c2_m4_eq eval_defs)
  then show "entityRemoveComponent 0 cA False c2_m4 = Inr c2_m5"
    unfolding c2_m5_def by (rule Inr_projr)
qed

lemma c2_commit_fails: "processDeferredRemoval c2_m5 = Inl TypeError"
  by (simp add: c2_m5_eq eval_defs pdr_entities.simps pdr_components.simps)

text \<open>
  C2 (the code breaks the claim). An entity gets component \<open>A\<close>, \<open>A\<close> is removed (not
  forced) and so staged, and \<open>A\<close> is added again before the frame ends:
  \<open>entityAddComponent\<close> looks for \<open>A\<close> among the attached types only, so that \<open>A\<close> is now
  attached and staged at once. (A second deferred removal then stages \<open>A\<close> twice with one
  staged instance, and the commit fails with a TypeError.)
\<close>

theorem C2_readd_staged_type:
  "createEntity EntityManager_new = Inr (0, ex_m1)
   \<and> c2_m2 = entityAddComponent 0 cA ex_m1
   \<and> entityRemoveComponent 0 cA False c2_m2 = Inr c2_m3
   \<and> ComponentTypes (heap c2_m3 0) = []
   \<and> ComponentTypesToRemove (heap c2_m3 0) = [cA]
   \<and> c2_m4 = entityAddComponent 0 cA c2_m3
   \<and> ComponentTypes (heap c2_m4 0) = [cA]
   \<and> ComponentTypesToRemove (heap c2_m4 0) = [cA]
   \<and> entityRemoveComponent 0 cA False c2_m4 = Inr c2_m5
   \<and> ComponentTypesToRemove (heap c2_m5 0) = [cA, cA]
   \<and> processDeferredRemoval c2_m5 = Inl TypeError"
proof -
  have "ComponentTypes (heap c2_m3 0) = [] \<and> ComponentTypesToRemove (heap c2_m3 0) = [cA]"
    by (simp add: c2_m3_eq cA_def)
  moreover have "ComponentTypes (heap c2_m4 0) = [cA] \<and> ComponentTypesToRemove (heap c2_m4 0) = [cA]"
    by (simp add: c2_m4_eq cA_def)
  moreover have "ComponentTypesToRemove (heap c2_m5 0) = [cA, cA]"
    by (simp add: c2_m5_eq cA_def)
  ultimately show ?thesis
    using ex_steps(1) c2_steps c2_commit_fails by (simp add: c2_m2_def c2_m4_def)
qed

section \<open>C5: the id of a created entity\<close>

lemma Entity_new_fields:
  "fst (Entity_new m) = allocated m"
  "nextId (snd (Entity_new m)) = nextId m + 1"
  "allocated (snd (Entity_new m)) = allocated m + 1"
  "id_ent (heap (snd (Entity_new m)) (allocated m)) = nextId m"
  "r \<noteq> allocated m \<Longrightarrow> heap (snd (Entity_new m)) r = heap m r"
  "entityPool (snd (Entity_new m)) = entityPool m"
  "entities (snd (Entity_new m)) = entities m"
  "em_eventDispatcher (snd (Entity_new m)) = em_eventDispatcher m"
  by (simp_all add: Entity_new_def)

lemma expand_loop_Entity_new:
  "fst (expand_loop Entity_new n fl m) = fl @ [allocated m ..< allocated m + n]
   \<and> nextId (snd (expand_loop Entity_new n fl m)) = nextId m + n
   \<and> allocated (snd (expand_loop Entity_new n fl m)) = allocated m + n
   \<and> (\<forall>r. allocated m \<le> r \<and> r < allocated m + n \<longrightarrow>
          id_ent (heap (snd (expand_loop Entity_new n fl m)) r) = nextId m + (r - allocated m))
   \<and> (\<forall>r. r < allocated m \<longrightarrow> heap (snd (expand_loop Entity_new n fl m)) r = heap m r)"
proof (induction n arbitrary: fl m)
  case 0
  show ?case by simp
next
  case (Suc n)
  let ?m1 = "snd (Entity_new m)"
  let ?r = "expand_loop Entity_new n (fl @ [allocated m]) ?m1"
  have step: "expand_loop Entity_new (Suc n) fl m = ?r"
    by (simp add: case_prod_beta Entity_new_fields)
  note IH = Suc.IH [of "fl @ [allocated m]" ?m1]
  have a: "fst ?r = fl @ [allocated m ..< allocated m + Suc n]"
    using IH by (simp add: Entity_new_fields upt_rec [of "allocated m"])
  have b: "nextId (snd ?r) = nextId m + Suc n" "allocated (snd ?r) = allocated m + Suc n"
    using IH by (simp_all add: Entity_new_fields)
  have c: "\<forall>r. allocated m \<le> r \<and> r < allocated m + Suc n \<longrightarrow>
          id_ent (heap (snd ?r) r) = nextId m + (r - allocated m)"
  proof (intro allI impI)
    fix r assume r: "allocated m \<le> r \<and> r < allocated m + Suc n"
    show "id_ent (heap (snd ?r) r) = nextId m + (r - allocated m)"
    proof (cases "r = allocated m")
      case True
      then have "heap (snd ?r) r = heap ?m1 r" using IH by (simp add: Entity_new_fields)
      with True show ?thesis by (simp add: Entity_new_fields)
    next
      case False
      with r have "allocated ?m1 \<le> r \<and> r < allocated ?m1 + n" by (simp add: Entity_new_fields)
      with IH have "id_ent (heap (snd ?r) r) = nextId ?m1 + (r - allocated ?m1)" by blast
      then have "id_ent (heap (snd ?r) r) = nextId m + 1 + (r - (allocated m + 1))"
        by (simp only: Entity_new_fields)
      moreover have "nextId m + 1 + (r - (allocated m + 1)) = nextId m + (r - allocated m)"
        using r False by arith
      ultimately show ?thesis by simp
    qed
  qed
  have d: "\<forall>r. r < allocated m \<longrightarrow> heap (snd ?r) r = heap m r"
    using IH by (simp add: Entity_new_fields)
  from a b c d show ?case unfolding step by simp
qed

lemma createEntity_empty_pool:
  assumes "freeList (entityPool m) = []"
  shows "\<exists>e m'. createEntity m = Inr (e, m')
           \<and> id_ent (heap m' e) = nextId m + (pool_count (entityPool m) + 2) div 5
           \<and> nextId m' = nextId m + growth (pool_count (entityPool m))"
proof -
  let ?g = "growth (pool_count (entityPool m))"
  let ?x = "expand_loop Entity_new ?g [] m"
  note X = expand_loop_Entity_new [of ?g "[]" m]
  have g: "?g = (pool_count (entityPool m) + 2) div 5 + 1" by (rule growth_eq)
  have fl: "fst ?x = [allocated m ..< allocated m + ?g]" using X by simp
  have ne: "fst ?x \<noteq> []" unfolding fl using g by simp
  have lst: "last (fst ?x) = allocated m + ?g - 1"
    unfolding fl using g by (simp add: upt_Suc_append)
  have idl: "id_ent (heap (snd ?x) (allocated m + ?g - 1)) = nextId m + (?g - 1)"
  proof -
    have "allocated m \<le> allocated m + ?g - 1 \<and> allocated m + ?g - 1 < allocated m + ?g"
      using g by simp
    with X have "id_ent (heap (snd ?x) (allocated m + ?g - 1))
                   = nextId m + (allocated m + ?g - 1 - allocated m)" by blast
    then show ?thesis by simp
  qed
  have aq: "aquire Entity_new (entityPool m) m =
              (Some (allocated m + ?g - 1),
               (entityPool m)\<lparr>freeList := butlast (fst ?x),
                               pool_count := pool_count (entityPool m) + ?g\<rparr>,
               snd ?x)"
    using assms ne lst by (simp add: aquire_def expand_def case_prod_beta)
  have "createEntity m = Inr (allocated m + ?g - 1,
          em_dispatch ENTITY_CREATED (allocated m + ?g - 1) None
            ((snd ?x)\<lparr>entityPool := (entityPool m)\<lparr>freeList := butlast (fst ?x),
                               pool_count := pool_count (entityPool m) + ?g\<rparr>,
               heap := (heap (snd ?x))(allocated m + ?g - 1 :=
                         (heap (snd ?x) (allocated m + ?g - 1))\<lparr>e_world := True\<rparr>),
               entities := entities (snd ?x) @ [allocated m + ?g - 1]\<rparr>))"
    by (simp add: createEntity_def aq)
  moreover have "nextId (snd ?x) = nextId m + ?g" using X by simp
  ultimately show ?thesis
    using idl g by (simp add: em_dispatch_fields)
qed

lemma createEntity_from_pool:
  assumes "freeList (entityPool m) \<noteq> []"
  shows "\<exists>e m'. createEntity m = Inr (e, m')
           \<and> e = last (freeList (entityPool m))
           \<and> id_ent (heap m' e) = id_ent (heap m e)
           \<and> nextId m' = nextId m"
  using assms by (simp add: createEntity_recycled)

subsection \<open>Examples for the ids\<close>

lemma c5_a2_eq:
  "c5_a2 =
   \<lparr>componentsManager =
         \<lparr>Components = \<lambda>x. None, componentPool = \<lambda>x. None,
            numComponents = \<lambda>x. None, instances = 0\<rparr>,
         nextId = Suc (Suc 0),
         heap =
           (\<lambda>r. \<lparr>id_ent = 0, e_world = False, ComponentTypes = [],
                   components = \<lambda>x. None, componentsToRemove = \<lambda>x. None,
                   queries = [], ComponentTypesToRemove = []\<rparr>)
           (0 := \<lparr>id_ent = 0, e_world = True, ComponentTypes = [],
                    components = \<lambda>x. None, componentsToRemove = \<lambda>x. None,
                    queries = [], ComponentTypesToRemove = []\<rparr>,
              Suc 0 :=
                \<lparr>id_ent = Suc 0, e_world = True, ComponentTypes = [],
                   components = \<lambda>x. None, componentsToRemove = \<lambda>x. None,
                   queries = [], ComponentTypesToRemove = []\<rparr>),
         allocated = Suc (Suc 0), entities = [0, Suc 0], queries_map = [],
         em_eventDispatcher =
           \<lparr>listeners = \<lambda>x. None, fired = Suc (Suc 0), handled = 0\<rparr>,
         entityPool = \<lparr>freeList = [], pool_count = Suc (Suc 0)\<rparr>,
         entitiesWithComponentsToRemove = [], entitiesToRemove = []\<rparr>"
  by (simp add: c5_a2_def eval_defs ex_m1_eq createEntity_fresh)

lemma c5_a3_eq:
  "c5_a3 =
   \<lparr>componentsManager =
         \<lparr>Components = \<lambda>x. None, componentPool = \<lambda>x. None,
            numComponents = \<lambda>x. None, instances = 0\<rparr>,
         nextId = Suc (Suc (Suc 0)),
         heap =
           (\<lambda>r. \<lparr>id_ent = 0, e_world = False, ComponentTypes = [],
                   components = \<lambda>x. None, componentsToRemove = \<lambda>x. None,
                   queries = [], ComponentTypesToRemove = []\<rparr>)
           (0 := \<lparr>id_ent = 0, e_world = True, ComponentTypes = [],
                    components = \<lambda>x. None, componentsToRemove = \<lambda>x. None,
                    queries = [], ComponentTypesToRemove = []\<rparr>,
              Suc 0 :=
                \<lparr>id_ent = Suc 0, e_world = True, ComponentTypes = [],
                   components = \<lambda>x. None, componentsToRemove = \<lambda>x. None,
                   queries = [], ComponentTypesToRemove = []\<rparr>,
              Suc (Suc 0) :=
                \<lparr>id_ent = Suc (Suc 0), e_world = True, ComponentTypes = [],
                   components = \<lambda>x. None, componentsToRemove = \<lambda>x. None,
                   queries = [], ComponentTypesToRemove = []\<rparr>),
         allocated = Suc (Suc (Suc 0)), entities = [0, Suc 0, Suc (Suc 0)],
         queries_map = [],
         em_eventDispatcher =
           \<lparr>listeners = \<lambda>x. None, fired = Suc (Suc (Suc 0)), handled = 0\<rparr>,
         entityPool = \<lparr>freeList = [], pool_count = Suc (Suc (Suc 0))\<rparr>,
         entitiesWithComponentsToRemove = [], entitiesToRemove = []\<rparr>"
  by (simp add: c5_a3_def eval_defs c5_a2_eq createEntity_fresh)

lemma c5_b1_eq:
  "c5_b1 =
   \<lparr>componentsManager =
         \<lparr>Components = \<lambda>x. None, componentPool = \<lambda>x. None,
            numComponents = \<lambda>x. None, instances = 0\<rparr>,
         nextId = Suc (Suc 0),
         heap =
           (\<lambda>r. \<lparr>id_ent = 0, e_world = False, ComponentTypes = [],
                   components = \<lambda>x. None, componentsToRemove = \<lambda>x. None,
                   queries = [], ComponentTypesToRemove = []\<rparr>)
           (0 := \<lparr>id_ent = Suc 0, e_world = False, ComponentTypes = [],
                    components = \<lambda>x. None, componentsToRemove = \<lambda>x. None,
                    queries = [], ComponentTypesToRemove = []\<rparr>),
         allocated = Suc 0, entities = [], queries_map = [],
         em_eventDispatcher =
           \<lparr>listeners = \<lambda>x. None, fired = Suc (Suc 0), handled = 0\<rparr>,
         entityPool = \<lparr>freeList = [0], pool_count = Suc 0\<rparr>,
         entitiesWithComponentsToRemove = [], entitiesToRemove = []\<rparr>"
  by (simp add: c5_b1_def eval_defs ex_m1_eq)

lemma c5_b2_eq:
  "c5_b2 =
   \<lparr>componentsManager =
         \<lparr>Components = \<lambda>x. None, componentPool = \<lambda>x. None,
            numComponents = \<lambda>x. None, instances = 0\<rparr>,
         nextId = Suc (Suc 0),
         heap =
           (\<lambda>r. \<lparr>id_ent = 0, e_world = False, ComponentTypes = [],
                   components = \<lambda>x. None, componentsToRemove = \<lambda>x. None,
                   queries = [], ComponentTypesToRemove = []\<rparr>)
           (0 := \<lparr>id_ent = Suc 0, e_world = True, ComponentTypes = [],
                    components = \<lambda>x. None, componentsToRemove = \<lambda>x. None,
                    queries = [], ComponentTypesToRemove = []\<rparr>),
         allocated = Suc 0, entities = [0], queries_map = [],
         em_eventDispatcher =
           \<lparr>listeners = \<lambda>x. None, fired = Suc (Suc (Suc 0)), handled = 0\<rparr>,
         entityPool = \<lparr>freeList = [], pool_count = Suc 0\<rparr>,
         entitiesWithComponentsToRemove = [], entitiesToRemove = []\<rparr>"
  by (simp add: c5_b2_def eval_defs c5_b1_eq createEntity_recycled)

subsection \<open>The claim about the id\<close>

lemma c5_steps:
  "createEntity ex_m1 = Inr (1, c5_a2)"
  "createEntity c5_a2 = Inr (2, c5_a3)"
  "removeEntity 0 True ex_m1 = Inr c5_b1"
  "createEntity c5_b1 = Inr (0, c5_b2)"
proof -
  show "createEntity ex_m1 = Inr (1, c5_a2)"
    by (simp add: c5_a2_def ex_m1_eq createEntity_fresh)
  show "createEntity c5_a2 = Inr (2, c5_a3)"
    by (simp add: c5_a3_def c5_a2_eq createEntity_fresh)
  have "\<exists>y. removeEntity 0 True ex_m1 = Inr y"
    by (simp add: ex_m1_eq eval_defs)
  then show "removeEntity 0 True ex_m1 = Inr c5_b1"
    unfolding c5_b1_def by (rule Inr_projr)
  show "createEntity c5_b1 = Inr (0, c5_b2)"
    by (simp add: c5_b2_def c5_b1_eq createEntity_recycled)
qed

lemma c5_fourth:
  "createEntity c5_a3 = Inr (c5_e4, c5_a4)" "id_ent (heap c5_a4 c5_e4) = 4"
proof -
  have fl: "freeList (entityPool c5_a3) = []" by (simp add: c5_a3_eq)
  from createEntity_empty_pool [OF fl] obtain e m' where
    r: "createEntity c5_a3 = Inr (e, m')"
    and i: "id_ent (heap m' e) = nextId c5_a3 + (pool_count (entityPool c5_a3) + 2) div 5"
    by blast
  from r show "createEntity c5_a3 = Inr (c5_e4, c5_a4)"
    by (simp add: c5_e4_def c5_a4_def)
  from r i show "id_ent (heap c5_a4 c5_e4) = 4"
    by (simp add: c5_e4_def c5_a4_def c5_a3_eq)
qed

text \<open>
  C5 (as stated, refuted). Freshly allocated: after three entities were created the pool
  has count 3, and the fourth \<open>createEntity\<close> makes the pool construct two entities, with
  ids 3 and 4, and returns the second: its id is 4 while the counter was 3 at the call.
  Recycled: the first entity is removed (forced), which resets its id to 1 and moves the
  counter to 2; \<open>createEntity\<close> then returns it with id 1 while the counter is 2.
\<close>

theorem C5_id_is_next_counterexample:
  "createEntity EntityManager_new = Inr (0, ex_m1)
   \<and> createEntity ex_m1 = Inr (1, c5_a2)
   \<and> createEntity c5_a2 = Inr (2, c5_a3)
   \<and> nextId c5_a3 = 3
   \<and> createEntity c5_a3 = Inr (c5_e4, c5_a4)
   \<and> id_ent (heap c5_a4 c5_e4) = 4
   \<and> removeEntity 0 True ex_m1 = Inr c5_b1
   \<and> nextId c5_b1 = 2
   \<and> createEntity c5_b1 = Inr (0, c5_b2)
   \<and> id_ent (heap c5_b2 0) = 1"
proof -
  have "nextId c5_a3 = 3" by (simp add: c5_a3_eq)
  moreover have "nextId c5_b1 = 2" by (simp add: c5_b1_eq)
  moreover have "id_ent (heap c5_b2 0) = 1" by (simp add: c5_b2_eq)
  ultimately show ?thesis
    using ex_steps(1) c5_steps c5_fourth by simp
qed

text \<open>
  C5 (amended). \<open>createEntity\<close> always returns an entity and assigns no id. An entity
  taken from a non-empty free list is the last one released; it keeps the id that
  \<open>Entity.reset\<close> gave it at its release, and the counter stays. With an empty free list
  the pool constructs \<open>round(count * 0.2) + 1\<close> entities, whose ids are the next values of
  the counter, and returns the last: its id is the counter at the call plus
  \<open>(count + 2) div 5\<close>, which is the counter itself only while the pool's count is below 3.
\<close>

theorem C5_createEntity_id:
  "\<exists>e m'. createEntity m = Inr (e, m')
     \<and> (if freeList (entityPool m) = []
        then id_ent (heap m' e) = nextId m + (pool_count (entityPool m) + 2) div 5
             \<and> nextId m' = nextId m + growth (pool_count (entityPool m))
        else e = last (freeList (entityPool m))
             \<and> id_ent (heap m' e) = id_ent (heap m e)
             \<and> nextId m' = nextId m)"
proof (cases "freeList (entityPool m) = []")
  case True
  with createEntity_empty_pool [OF True] show ?thesis by auto
next
  case False
  with createEntity_from_pool [OF False] show ?thesis by auto
qed

section \<open>C8: getMutableComponent\<close>














subsection \<open>An entity in a reactive query\<close>


subsection \<open>The dispatches of getMutableComponent\<close>



section \<open>C6: deferred removal of a component\<close>















end
